theory Spec2Isabelle
  imports Main
begin

section \<open>Characters and strings\<close>

text \<open>
  The converter works on Python \<open>str\<close> values. The model takes them as \<open>string\<close> over the
  ASCII alphabet: the character classes below are the ASCII part of what Python's
  \<open>str.isspace\<close>, the regex classes \<open>\s\<close> and \<open>\w\<close>, and \<open>str.upper\<close> do. A \<open>char\<close> above
  127 is outside the modelled alphabet: it is in no class and \<open>upper\<close> leaves it alone.
\<close>

abbreviation sq :: char where "sq \<equiv> CHR 0x27"
abbreviation dq :: char where "dq \<equiv> CHR 0x22"
abbreviation nl :: char where "nl \<equiv> CHR 0x0A"

text \<open>\<open>str.isspace\<close> on one character, which is also the regex class \<open>\s\<close>:
  tab, line feed, vertical tab, form feed, carriage return, the four separators
  \<open>0x1C\<close> to \<open>0x1F\<close>, and the blank.\<close>

definition is_space :: "char \<Rightarrow> bool" where
  "is_space c = (c \<in> set [CHR 0x09, CHR 0x0A, CHR 0x0B, CHR 0x0C, CHR 0x0D,
                            CHR 0x1C, CHR 0x1D, CHR 0x1E, CHR 0x1F, CHR 0x20])"

definition lower_letters :: string where
  "lower_letters = ''abcdefghijklmnopqrstuvwxyz''"

definition upper_letters :: string where
  "upper_letters = ''ABCDEFGHIJKLMNOPQRSTUVWXYZ''"

text \<open>The regex class \<open>\w\<close>: letters, digits and the underscore.\<close>

definition is_word :: "char \<Rightarrow> bool" where
  "is_word c = (c \<in> set (lower_letters @ upper_letters @ ''0123456789_''))"

text \<open>\<open>str.upper\<close>.\<close>

definition upper_char :: "char \<Rightarrow> char" where
  "upper_char c = (case map_of (zip lower_letters upper_letters) c of
                     Some u \<Rightarrow> u | None \<Rightarrow> c)"

definition upper :: "string \<Rightarrow> string" where
  "upper s = map upper_char s"

text \<open>\<open>str.strip()\<close> with no argument removes leading and trailing whitespace.\<close>

definition lstrip :: "string \<Rightarrow> string" where
  "lstrip s = dropWhile is_space s"

definition rstrip :: "string \<Rightarrow> string" where
  "rstrip s = rev (dropWhile is_space (rev s))"

definition strip :: "string \<Rightarrow> string" where
  "strip s = rstrip (lstrip s)"

text \<open>\<open>s.startswith(p)\<close> and \<open>s.endswith(p)\<close>.\<close>

definition startswith :: "string \<Rightarrow> string \<Rightarrow> bool" where
  "startswith s p = (take (length p) s = p)"

definition endswith :: "string \<Rightarrow> string \<Rightarrow> bool" where
  "endswith s p = (length p \<le> length s \<and> drop (length s - length p) s = p)"

text \<open>\<open>s.replace(old, new)\<close>: the occurrences of \<open>old\<close> are replaced from left to right,
  without overlap. For an empty \<open>old\<close> Python puts \<open>new\<close> before every character and at
  the end.\<close>

function replace_from :: "string \<Rightarrow> string \<Rightarrow> string \<Rightarrow> string" where
  "replace_from old new [] = []"
| "replace_from old new (x # xs) =
     (if old \<noteq> [] \<and> take (length old) (x # xs) = old
      then new @ replace_from old new (drop (length old) (x # xs))
      else x # replace_from old new xs)"
  by pat_completeness auto
termination
  by (relation "measure (\<lambda>(old, new, s). length s)") (auto simp: neq_Nil_conv)

definition str_replace :: "string \<Rightarrow> string \<Rightarrow> string \<Rightarrow> string" where
  "str_replace old new s =
     (if old = [] then new @ concat (map (\<lambda>x. x # new) s) else replace_from old new s)"

section \<open>Regular expressions\<close>

text \<open>
  The templates of the converter use literals, the classes \<open>\w\<close>, \<open>\s\<close>, \<open>.\<close> and
  \<open>['"]\<close>, greedy \<open>*\<close> and \<open>+\<close> on a single class, capture groups, an optional
  non-capturing group, an alternative and \<open>$\<close>. \<open>rmatch\<close> is the backtracking matcher of
  \<open>re\<close>: it lists every way the expression matches at the start of the input, as the text
  left over and the captures, in the order in which backtracking tries them. \<open>re.match\<close>
  takes the first.
\<close>

datatype cclass = Word | Space | Dot | Quote

fun in_class :: "cclass \<Rightarrow> char \<Rightarrow> bool" where
  "in_class Word c = is_word c"
| "in_class Space c = is_space c"
| "in_class Dot c = (c \<noteq> nl)"
| "in_class Quote c = (c = sq \<or> c = dq)"

datatype regex =
    Lit string
  | Cls cclass
  | Star cclass
  | Plus cclass
  | Grp nat regex
  | Seq regex regex
  | Alt regex regex
  | Opt regex
  | Eos

type_synonym caps = "nat \<rightharpoonup> string"

text \<open>A greedy repetition of a class takes the longest run first and gives characters
  back one at a time: the texts it can leave over, in that order.\<close>

fun star_rests :: "(char \<Rightarrow> bool) \<Rightarrow> string \<Rightarrow> string list" where
  "star_rests P [] = [[]]"
| "star_rests P (x # xs) = (if P x then star_rests P xs @ [x # xs] else [x # xs])"

fun rmatch :: "regex \<Rightarrow> string \<Rightarrow> caps \<Rightarrow> (string \<times> caps) list" where
  "rmatch (Lit l) s c = (if take (length l) s = l then [(drop (length l) s, c)] else [])"
| "rmatch (Cls k) s c =
     (case s of [] \<Rightarrow> [] | x # xs \<Rightarrow> if in_class k x then [(xs, c)] else [])"
| "rmatch (Star k) s c = map (\<lambda>r. (r, c)) (star_rests (in_class k) s)"
| "rmatch (Plus k) s c =
     (case s of [] \<Rightarrow> []
      | x # xs \<Rightarrow> if in_class k x then map (\<lambda>r. (r, c)) (star_rests (in_class k) xs) else [])"
| "rmatch (Grp n r) s c =
     map (\<lambda>(rest, c'). (rest, c'(n \<mapsto> take (length s - length rest) s))) (rmatch r s c)"
| "rmatch (Seq r1 r2) s c = concat (map (\<lambda>(rest, c'). rmatch r2 rest c') (rmatch r1 s c))"
| "rmatch (Alt r1 r2) s c = rmatch r1 s c @ rmatch r2 s c"
| "rmatch (Opt r) s c = rmatch r s c @ [(s, c)]"
| "rmatch Eos s c = (if s = [] \<or> s = [nl] then [(s, c)] else [])"

fun seqs :: "regex list \<Rightarrow> regex" where
  "seqs [] = Lit []"
| "seqs [r] = r"
| "seqs (r # rs) = Seq r (seqs rs)"

text \<open>The number of capture groups of an expression, and \<open>m.groups()\<close>: the captures of
  the groups 1 to n, \<open>None\<close> for a group that took no part in the match.\<close>

fun ngroups :: "regex \<Rightarrow> nat" where
  "ngroups (Grp n r) = Suc (ngroups r)"
| "ngroups (Seq r1 r2) = ngroups r1 + ngroups r2"
| "ngroups (Alt r1 r2) = ngroups r1 + ngroups r2"
| "ngroups (Opt r) = ngroups r"
| "ngroups _ = 0"

type_synonym match = "string option list"

definition re_match :: "regex \<Rightarrow> string \<Rightarrow> match option" where
  "re_match r s =
     (case rmatch r s Map.empty of
        [] \<Rightarrow> None
      | (rest, c) # _ \<Rightarrow> Some (map c [1 ..< Suc (ngroups r)]))"

datatype error = ValueError | TypeError | AttributeError | IndexError

text \<open>\<open>m.group(i)\<close> for a group number \<open>i\<close> from 1 on (the converter asks for group 1
  only); it raises \<open>IndexError\<close> for a group the expression does not have.\<close>

definition group :: "match \<Rightarrow> nat \<Rightarrow> error + string option" where
  "group m i = (if 1 \<le> i \<and> i \<le> length m then Inr (m ! (i - 1)) else Inl IndexError)"

text \<open>An f-string prints a group that is \<open>None\<close> as the text \<open>None\<close>.\<close>

fun fmt :: "string option \<Rightarrow> string" where
  "fmt None = ''None''"
| "fmt (Some s) = s"

text \<open>
  \<open>re.sub(r, repl, s)\<close> scans the text from the left: where the expression matches, the
  match is replaced and the scan goes on behind it, elsewhere the character is kept.
  The expression it is used with here never matches the empty text; the model keeps the
  character where a match is empty.
\<close>

function re_sub :: "regex \<Rightarrow> (caps \<Rightarrow> string) \<Rightarrow> string \<Rightarrow> string" where
  "re_sub r repl [] = []"
| "re_sub r repl (x # xs) =
     (case rmatch r (x # xs) Map.empty of
        [] \<Rightarrow> x # re_sub r repl xs
      | (rest, c) # _ \<Rightarrow>
          if length rest \<le> length xs then repl c @ re_sub r repl rest
          else x # re_sub r repl xs)"
  by pat_completeness auto
termination
  by (relation "measure (\<lambda>(r, repl, s). length s)") auto

text \<open>The replacement template \<open>\1\<close>.\<close>

definition backref1 :: "caps \<Rightarrow> string" where
  "backref1 c = (case c 1 of None \<Rightarrow> [] | Some g \<Rightarrow> g)"

section \<open>The converter\<close>

definition FUNC_MAP :: "(string \<times> string) list" where
  "FUNC_MAP = [(''mean'', ''AVG''), (''sum'', ''SUM''), (''count'', ''COUNT''),
               (''min'', ''MIN''), (''max'', ''MAX''), (''median'', ''MEDIAN'')]"

text \<open>\<open>FUNC_MAP.get(func, func.upper())\<close> for a \<open>str\<close>, and for a group of a match:
  \<open>func.upper()\<close> raises on \<open>None\<close>.\<close>

definition func_map_get :: "string \<Rightarrow> string" where
  "func_map_get func = (case map_of FUNC_MAP func of Some v \<Rightarrow> v | None \<Rightarrow> upper func)"

fun sql_func :: "string option \<Rightarrow> error + string" where
  "sql_func None = Inl AttributeError"
| "sql_func (Some func) = Inr (func_map_get func)"

definition clean_quotes :: "string \<Rightarrow> string" where
  "clean_quotes s0 =
     (let s = strip s0 in
      if (startswith s [sq] \<and> endswith s [sq]) \<or> (startswith s [dq] \<and> endswith s [dq])
      then butlast (tl s)
      else s)"

text \<open>The expression \<open>df\[['"](\w+)['"]\]\<close> of the condition normalizer.\<close>

definition pat_series :: regex where
  "pat_series = seqs [Lit ''df['', Cls Quote, Grp 1 (Plus Word), Cls Quote, Lit '']'']"

definition replace_series_refs :: "string \<Rightarrow> string" where
  "replace_series_refs condition =
     str_replace ''df.'' ''''
       (str_replace ''|'' ''OR''
         (str_replace ''&'' ''AND''
           (str_replace ''=='' ''=''
             (re_sub pat_series backref1 condition))))"

text \<open>The six templates of \<open>python_to_sql\<close>, in the order in which it tries them.\<close>

definition pat_groupby :: regex where
  "pat_groupby = seqs
     [Lit ''df.groupby('', Star Space, Cls Quote, Grp 1 (Plus Word), Cls Quote, Star Space,
      Lit '')'', Star Space, Lit ''['', Star Space, Cls Quote, Grp 2 (Plus Word), Cls Quote,
      Star Space, Lit '']'', Star Space, Lit ''.'', Star Space, Grp 3 (Plus Word), Star Space,
      Lit ''('', Star Space, Lit '')'']"

definition pat_sort :: regex where
  "pat_sort = seqs
     [Lit ''df.sort_values('', Star Space, Cls Quote, Grp 1 (Plus Word), Cls Quote,
      Opt (seqs [Star Space, Lit '','', Star Space, Lit ''ascending'', Star Space, Lit ''='',
                 Star Space, Grp 2 (Alt (Lit ''True'') (Lit ''False''))]),
      Star Space, Lit '')'']"

definition pat_chain :: regex where
  "pat_chain = seqs
     [Lit ''df['', Grp 1 (Plus Dot), Lit '']'', Star Space, Lit ''['', Star Space, Cls Quote,
      Grp 2 (Plus Word), Cls Quote, Star Space, Lit '']'', Star Space, Lit ''.'', Star Space,
      Grp 3 (Plus Word), Star Space, Lit ''('', Star Space, Lit '')'']"

definition pat_filter :: regex where
  "pat_filter = seqs [Lit ''df['', Grp 1 (Plus Dot), Lit '']'', Star Space, Eos]"

definition pat_colagg :: regex where
  "pat_colagg = seqs
     [Lit ''df['', Cls Quote, Grp 1 (Plus Word), Cls Quote, Lit '']'', Star Space, Lit ''.'',
      Star Space, Grp 2 (Plus Word), Star Space, Lit ''('', Star Space, Lit '')'']"

definition pat_column :: regex where
  "pat_column = seqs
     [Lit ''df['', Cls Quote, Grp 1 (Plus Word), Cls Quote, Lit '']'', Star Space, Eos]"

text \<open>The builders: what \<open>python_to_sql\<close> does with the match of each template. Unpacking
  \<open>m.groups()\<close> into the wrong number of names raises \<open>ValueError\<close>.\<close>

fun build_groupby :: "string \<Rightarrow> match \<Rightarrow> error + string" where
  "build_groupby table_name [gcol, target_col, func] =
     (case sql_func func of
        Inl e \<Rightarrow> Inl e
      | Inr f \<Rightarrow> Inr (''SELECT '' @ fmt gcol @ '', '' @ f @ ''('' @ fmt target_col
                       @ '') FROM '' @ table_name @ '' GROUP BY '' @ fmt gcol @ '';''))"
| "build_groupby table_name m = Inl ValueError"

fun build_sort :: "string \<Rightarrow> match \<Rightarrow> error + string" where
  "build_sort table_name [col, asc] =
     Inr (''SELECT * FROM '' @ table_name @ '' ORDER BY '' @ fmt col @ '' ''
          @ (if asc = Some ''False'' then ''DESC'' else ''ASC'') @ '';'')"
| "build_sort table_name m = Inl ValueError"

text \<open>The condition normalizer takes a \<open>str\<close>: \<open>re.sub\<close> raises \<open>TypeError\<close> on \<open>None\<close>.\<close>

fun normalized :: "string option \<Rightarrow> error + string" where
  "normalized None = Inl TypeError"
| "normalized (Some cond_raw) = Inr (replace_series_refs cond_raw)"

fun build_chain :: "string \<Rightarrow> match \<Rightarrow> error + string" where
  "build_chain table_name [cond_raw, target_col, func] =
     (case normalized cond_raw of
        Inl e \<Rightarrow> Inl e
      | Inr cond \<Rightarrow>
         (case sql_func func of
            Inl e \<Rightarrow> Inl e
          | Inr f \<Rightarrow> Inr (''SELECT '' @ f @ ''('' @ fmt target_col @ '') FROM '' @ table_name
                           @ '' WHERE '' @ cond @ '';'')))"
| "build_chain table_name m = Inl ValueError"

definition build_filter :: "string \<Rightarrow> match \<Rightarrow> error + string" where
  "build_filter table_name m =
     (case group m 1 of
        Inl e \<Rightarrow> Inl e
      | Inr cond_raw \<Rightarrow>
         (case normalized cond_raw of
            Inl e \<Rightarrow> Inl e
          | Inr cond \<Rightarrow> Inr (''SELECT * FROM '' @ table_name @ '' WHERE '' @ cond @ '';'')))"

fun build_colagg :: "string \<Rightarrow> match \<Rightarrow> error + string" where
  "build_colagg table_name [col, func] =
     (case sql_func func of
        Inl e \<Rightarrow> Inl e
      | Inr f \<Rightarrow> Inr (''SELECT '' @ f @ ''('' @ fmt col @ '') FROM '' @ table_name @ '';''))"
| "build_colagg table_name m = Inl ValueError"

definition build_column :: "string \<Rightarrow> match \<Rightarrow> error + string" where
  "build_column table_name m =
     (case group m 1 of
        Inl e \<Rightarrow> Inl e
      | Inr col \<Rightarrow> Inr (''SELECT '' @ fmt col @ '' FROM '' @ table_name @ '';''))"

definition unsupported :: string where
  "unsupported =
     ''ERROR: Unsupported or unrecognized Python pattern. Please try a simpler expression.''"

definition python_to_sql :: "string \<Rightarrow> string \<Rightarrow> error + string" where
  "python_to_sql python_code table_name =
     (let code = strip python_code in
      case re_match pat_groupby code of Some m \<Rightarrow> build_groupby table_name m | None \<Rightarrow>
     (case re_match pat_sort code of Some m \<Rightarrow> build_sort table_name m | None \<Rightarrow>
     (case re_match pat_chain code of Some m \<Rightarrow> build_chain table_name m | None \<Rightarrow>
     (case re_match pat_filter code of Some m \<Rightarrow> build_filter table_name m | None \<Rightarrow>
     (case re_match pat_colagg code of Some m \<Rightarrow> build_colagg table_name m | None \<Rightarrow>
     (case re_match pat_column code of Some m \<Rightarrow> build_column table_name m | None \<Rightarrow>
      Inr unsupported))))))"

section \<open>Shapes of input and properties of expressions\<close>

text \<open>The words the statements below are made of: a run of whitespace, an identifier (a
  non-empty run of \<open>\w\<close> characters) and a quote character.\<close>

definition is_ws :: "string \<Rightarrow> bool" where
  "is_ws w = list_all is_space w"

definition is_ident :: "string \<Rightarrow> bool" where
  "is_ident w = (w \<noteq> [] \<and> list_all is_word w)"

definition is_quote :: "char \<Rightarrow> bool" where
  "is_quote q = (q = sq \<or> q = dq)"

text \<open>\<open>starts P s\<close>: the text begins with a character of \<open>P\<close>. An expression rejects a
  class when it matches no text that begins with a character of the class.\<close>

definition starts :: "(char \<Rightarrow> bool) \<Rightarrow> string \<Rightarrow> bool" where
  "starts P s = (case s of [] \<Rightarrow> False | x # _ \<Rightarrow> P x)"

definition rejects :: "cclass \<Rightarrow> regex \<Rightarrow> bool" where
  "rejects k r = (\<forall>u c. starts (in_class k) u \<longrightarrow> rmatch r u c = [])"

text \<open>How often a character occurs at least in every text an expression matches.\<close>

fun min_count :: "char \<Rightarrow> regex \<Rightarrow> nat" where
  "min_count ch (Lit l) = count_list l ch"
| "min_count ch (Grp n r) = min_count ch r"
| "min_count ch (Seq r1 r2) = min_count ch r1 + min_count ch r2"
| "min_count ch (Alt r1 r2) = min (min_count ch r1) (min_count ch r2)"
| "min_count ch r = 0"

text \<open>The chain template behind its condition group: \<open>pat_chain\<close> is \<open>df\[\<close>, the
  group \<open>(.+)\<close> and this expression.\<close>

definition chain_tail :: regex where
  "chain_tail = seqs
     [Lit '']'', Star Space, Lit ''['', Star Space, Cls Quote,
      Grp 2 (Plus Word), Cls Quote, Star Space, Lit '']'', Star Space, Lit ''.'', Star Space,
      Grp 3 (Plus Word), Star Space, Lit ''('', Star Space, Lit '')'']"

text \<open>Text behind an input of the chained shape: the condition group \<open>(.+)\<close> of the
  chain template runs on into it, as far as the first line break, and gives characters
  back one at a time. \<open>chain_again t\<close>: at one of the places of \<open>t\<close> that the group reaches
  in this way, the rest of the chain template matches once more.\<close>

definition chain_again :: "string \<Rightarrow> bool" where
  "chain_again t = list_ex (\<lambda>r. re_match chain_tail r \<noteq> None) (star_rests (in_class Dot) t)"

text \<open>\<open>ends_filter t\<close>: the text ends in \<open>]\<close> and has no line break, so that \<open>df[\<close>, text
  without a line break and \<open>t\<close> together are matched by the filter template.\<close>

definition ends_filter :: "string \<Rightarrow> bool" where
  "ends_filter t = (t \<noteq> [] \<and> last t = CHR '']'' \<and> nl \<notin> set t)"

text \<open>The groups that are set in every match of an expression.\<close>

fun sure_groups :: "regex \<Rightarrow> nat set" where
  "sure_groups (Grp n r) = insert n (sure_groups r)"
| "sure_groups (Seq r1 r2) = sure_groups r1 \<union> sure_groups r2"
| "sure_groups (Alt r1 r2) = sure_groups r1 \<inter> sure_groups r2"
| "sure_groups r = {}"

section \<open>The matcher on texts of a known shape\<close>

lemma starts_simps [simp]: "starts P [] = False" "starts P (x # xs) = P x"
  by (simp_all add: starts_def)

lemma starts_append: "starts P (u @ v) = (if u = [] then starts P v else starts P u)"
  by (cases u) simp_all

lemma star_rests_run:
  "list_all P w \<Longrightarrow> \<not> starts P rest \<Longrightarrow>
   \<exists>ys. star_rests P (w @ rest) = rest # ys \<and> list_all (starts P) ys"
proof (induction w)
  case Nil
  then show ?case by (cases rest) auto
next
  case (Cons x w)
  then obtain ys where "star_rests P (w @ rest) = rest # ys" "list_all (starts P) ys"
    by auto
  with Cons.prems show ?case by simp
qed

lemma concat_map_all_nil: "list_all (\<lambda>y. f y = []) ys \<Longrightarrow> concat (map f ys) = []"
  by (induction ys) auto

lemma star_step:
  assumes w: "list_all (in_class k) w" and rest: "\<not> starts (in_class k) rest"
    and rej: "\<And>u c'. starts (in_class k) u \<Longrightarrow> rmatch r u c' = []"
  shows "rmatch (Seq (Star k) r) (w @ rest) c = rmatch r rest c"
proof -
  obtain ys where ys: "star_rests (in_class k) (w @ rest) = rest # ys"
    "list_all (starts (in_class k)) ys"
    using star_rests_run [OF w rest] by blast
  have "list_all (\<lambda>y. rmatch r y c = []) ys"
    using ys(2) rej by (simp add: list_all_iff)
  then have "concat (map (\<lambda>y. rmatch r y c) ys) = []" by (rule concat_map_all_nil)
  then show ?thesis using ys(1) by (simp add: comp_def)
qed

lemma grp_plus_step:
  assumes ne: "w \<noteq> []" and w: "list_all (in_class k) w"
    and rest: "\<not> starts (in_class k) rest"
    and rej: "\<And>u c'. starts (in_class k) u \<Longrightarrow> rmatch r u c' = []"
  shows "rmatch (Seq (Grp n (Plus k)) r) (w @ rest) c = rmatch r rest (c(n \<mapsto> w))"
proof -
  obtain x w' where xw: "w = x # w'" using ne by (cases w) auto
  with w have x: "in_class k x" and w': "list_all (in_class k) w'" by auto
  obtain ys where ys: "star_rests (in_class k) (w' @ rest) = rest # ys"
    "list_all (starts (in_class k)) ys"
    using star_rests_run [OF w' rest] by blast
  have "list_all (\<lambda>y. rmatch r y (c(n \<mapsto> take (length (w @ rest) - length y) (w @ rest))) = []) ys"
    using ys(2) rej by (simp add: list_all_iff)
  then have "concat (map (\<lambda>y. rmatch r y (c(n \<mapsto> take (length (w @ rest) - length y) (w @ rest)))) ys) = []"
    by (rule concat_map_all_nil)
  then show ?thesis using ys(1) x xw by (simp add: comp_def)
qed

lemma space_not_word: "is_space x \<Longrightarrow> \<not> is_word x"
  by (auto simp: is_space_def is_word_def lower_letters_def upper_letters_def)

lemma quote_not_space: "is_quote q \<Longrightarrow> \<not> is_space q"
  by (auto simp: is_space_def is_quote_def)

lemma quote_not_word: "is_quote q \<Longrightarrow> \<not> is_word q"
  by (auto simp: is_word_def is_quote_def lower_letters_def upper_letters_def)

lemma lit_nil: "rmatch (Lit []) s c = [(s, c)]" by simp
lemma lit_cons_nil: "rmatch (Lit (a # l)) [] c = []" by simp
lemma lit_cons: "rmatch (Lit (a # l)) (x # s) c = (if a = x then rmatch (Lit l) s c else [])"
  by simp

lemma rejects_Lit: "\<not> in_class k a \<Longrightarrow> rejects k (Lit (a # l))"
  unfolding rejects_def
proof (intro allI impI)
  fix u c assume "\<not> in_class k a" "starts (in_class k) u"
  then show "rmatch (Lit (a # l)) u c = []" by (cases u) auto
qed

lemma rejects_Cls: "(\<And>x. in_class k x \<Longrightarrow> \<not> in_class k' x) \<Longrightarrow> rejects k (Cls k')"
  unfolding rejects_def
proof (intro allI impI)
  fix u c assume a: "\<And>x. in_class k x \<Longrightarrow> \<not> in_class k' x" "starts (in_class k) u"
  then show "rmatch (Cls k') u c = []" by (cases u) auto
qed

lemma rejects_Plus: "(\<And>x. in_class k x \<Longrightarrow> \<not> in_class k' x) \<Longrightarrow> rejects k (Plus k')"
  unfolding rejects_def
proof (intro allI impI)
  fix u c assume a: "\<And>x. in_class k x \<Longrightarrow> \<not> in_class k' x" "starts (in_class k) u"
  then show "rmatch (Plus k') u c = []" by (cases u) auto
qed

lemma rejects_Grp: "rejects k r \<Longrightarrow> rejects k (Grp n r)"
  by (simp add: rejects_def)

lemma rejects_Seq: "rejects k r1 \<Longrightarrow> rejects k (Seq r1 r2)"
  by (simp add: rejects_def)

lemma rejects_Alt: "rejects k r1 \<Longrightarrow> rejects k r2 \<Longrightarrow> rejects k (Alt r1 r2)"
  by (simp add: rejects_def)

lemma in_class_Space: "in_class Space = is_space" by (rule ext) simp
lemma in_class_Word: "in_class Word = is_word" by (rule ext) simp

lemma star_space_step:
  "list_all is_space w \<Longrightarrow> \<not> starts is_space rest \<Longrightarrow> rejects Space r \<Longrightarrow>
   rmatch (Seq (Star Space) r) (w @ rest) c = rmatch r rest c"
  by (rule star_step) (auto simp: rejects_def in_class_Space)

lemma grp_word_step:
  "w \<noteq> [] \<Longrightarrow> list_all is_word w \<Longrightarrow> \<not> starts is_word rest \<Longrightarrow> rejects Word r \<Longrightarrow>
   rmatch (Seq (Grp n (Plus Word)) r) (w @ rest) c = rmatch r rest (c(n \<mapsto> w))"
  by (rule grp_plus_step) (auto simp: rejects_def in_class_Word)

lemma lit_chars:
  "\<not> is_space (CHR '')'')" "\<not> is_space (CHR ''('')" "\<not> is_space (CHR ''['')"
  "\<not> is_space (CHR '']'')" "\<not> is_space (CHR ''.'')" "\<not> is_space (CHR '','')"
  "\<not> is_space (CHR ''='')" "\<not> is_space (CHR ''a'')" "\<not> is_space (CHR ''T'')"
  "\<not> is_space (CHR ''F'')" "\<not> is_space (CHR ''d'')"
  "\<not> is_word (CHR '')'')" "\<not> is_word (CHR ''('')" "\<not> is_word (CHR ''['')"
  "\<not> is_word (CHR '']'')" "\<not> is_word (CHR ''.'')" "\<not> is_word (CHR '','')"
  "\<not> is_word (CHR ''='')"
  by (simp_all add: is_space_def is_word_def lower_letters_def upper_letters_def)

lemma rejects_space_quote: "rejects Space (Cls Quote)"
  by (rule rejects_Cls) (auto simp: is_space_def)

lemma rejects_space_word: "rejects Space (Plus Word)"
  by (rule rejects_Plus) (auto simp: space_not_word)

lemma rejects_word_quote: "rejects Word (Cls Quote)"
  by (rule rejects_Cls) (auto simp: is_word_def lower_letters_def upper_letters_def)

lemma rejects_word_star_space: "rejects Word r \<Longrightarrow> rejects Word (Seq (Star Space) r)"
  unfolding rejects_def
proof (intro allI impI)
  fix u c assume r: "\<forall>u c. starts (in_class Word) u \<longrightarrow> rmatch r u c = []"
    and u: "starts (in_class Word) u"
  then obtain x xs where [simp]: "u = x # xs" and x: "is_word x" by (cases u) auto
  from x have "\<not> is_space x" using space_not_word by blast
  moreover from r u have "rmatch r u c = []" by blast
  ultimately show "rmatch (Seq (Star Space) r) u c = []" by simp
qed

lemma seq_cls_quote:
  "is_quote q \<Longrightarrow> rmatch (Seq (Cls Quote) r) (q # s) c = rmatch r s c"
  by (simp add: is_quote_def)

lemma seq_lit_cons:
  "rmatch (Seq (Lit (a # l)) r) (x # s) c = (if a = x then rmatch (Seq (Lit l) r) s c else [])"
  by simp

lemma seq_lit_nil: "rmatch (Seq (Lit []) r) s c = rmatch r s c"
  by simp

lemma seq_cls_cons:
  "rmatch (Seq (Cls k) r) (x # s) c = (if in_class k x then rmatch r s c else [])"
  by simp

lemma seq_opt: "rmatch (Seq (Opt x) r) s c = rmatch (Seq x r) s c @ rmatch r s c"
  by simp

lemma concat_map_concat_map:
  "concat (map f (concat (map g xs))) = concat (map (\<lambda>x. concat (map f (g x))) xs)"
  by (induction xs) auto

lemma seq_assoc: "rmatch (Seq (Seq a b) r) s c = rmatch (Seq a (Seq b r)) s c"
  by (simp add: concat_map_concat_map split_def)

lemma seq_grp_alt:
  "rmatch (Seq (Grp n (Alt a b)) r) s c
     = rmatch (Seq (Grp n a) r) s c @ rmatch (Seq (Grp n b) r) s c"
  by simp

lemma seq_grp_lit:
  "rmatch (Seq (Grp n (Lit l)) r) s c
     = (if take (length l) s = l then rmatch r (drop (length l) s) (c(n \<mapsto> l)) else [])"
proof (cases "take (length l) s = l")
  case True
  then have "length l \<le> length s" by (metis length_take min.cobounded1)
  then have "length s - (length s - length l) = length l" by arith
  with True show ?thesis by simp
next
  case False
  then show ?thesis by simp
qed

lemmas msimps = lit_nil lit_cons_nil lit_cons seq_lit_cons seq_lit_nil seq_cls_quote
  star_space_step grp_word_step seq_opt seq_assoc seq_grp_alt seq_grp_lit

lemmas rej = rejects_Lit rejects_Grp rejects_Seq rejects_Alt
  rejects_space_quote rejects_space_word rejects_word_quote rejects_word_star_space lit_chars

lemma groupby_match:
  assumes ws: "is_ws w1" "is_ws w2" "is_ws w3" "is_ws w4" "is_ws w5" "is_ws w6" "is_ws w7"
      "is_ws w8" "is_ws w9"
    and qs: "is_quote q1" "is_quote q2" "is_quote q3" "is_quote q4"
    and ids: "is_ident G" "is_ident C" "is_ident F"
  shows "rmatch pat_groupby
     (''df.groupby('' @ w1 @ [q1] @ G @ [q2] @ w2 @ '')'' @ w3 @ ''['' @ w4 @ [q3] @ C @ [q4]
        @ w5 @ '']'' @ w6 @ ''.'' @ w7 @ F @ w8 @ ''('' @ w9 @ '')'' @ t) c
     = [(t, c(1 \<mapsto> G, 2 \<mapsto> C, 3 \<mapsto> F))]"
proof -
  have nq: "\<not> is_space q1" "\<not> is_space q2" "\<not> is_space q3" "\<not> is_space q4"
    "\<not> is_word q1" "\<not> is_word q2" "\<not> is_word q3" "\<not> is_word q4"
    using qs by (simp_all add: quote_not_space quote_not_word)
  have hdF: "\<not> starts is_space (F @ u)" for u
    using ids(3) by (cases F) (auto simp: is_ident_def space_not_word)
  have hdw: "\<not> starts is_word (w @ x # u)" if "list_all is_space w" "\<not> is_word x" for w x u
    using that by (cases w) (auto simp: space_not_word)
  note [simp] = nq qs hdF hdw
  show ?thesis
    using ws ids
    apply (simp add: pat_groupby_def is_ws_def is_ident_def
        msimps rej del: rmatch.simps)
    done
qed

lemma hd_ident: "is_ident F \<Longrightarrow> \<not> starts is_space (F @ u)"
  by (cases F) (auto simp: is_ident_def space_not_word)

lemma hd_ws_word: "list_all is_space w \<Longrightarrow> \<not> is_word x \<Longrightarrow> \<not> starts is_word (w @ x # u)"
  by (cases w) (auto simp: space_not_word)

lemma sort_match_plain:
  assumes ws: "is_ws w1" "is_ws w2"
    and qs: "is_quote q1" "is_quote q2"
    and ids: "is_ident C"
  shows "rmatch pat_sort (''df.sort_values('' @ w1 @ [q1] @ C @ [q2] @ w2 @ '')'' @ t) c
     = [(t, c(1 \<mapsto> C))]"
proof -
  note [simp] = qs qs [THEN quote_not_space] qs [THEN quote_not_word] hd_ws_word
  show ?thesis
    using ws ids
    by (simp add: pat_sort_def is_ws_def is_ident_def msimps rej del: rmatch.simps)
qed

lemma sort_match_asc:
  assumes ws: "is_ws w1" "is_ws w2" "is_ws w3" "is_ws w4" "is_ws w5" "is_ws w6"
    and qs: "is_quote q1" "is_quote q2"
    and ids: "is_ident C"
    and b: "b = ''True'' \<or> b = ''False''"
  shows "rmatch pat_sort (''df.sort_values('' @ w1 @ [q1] @ C @ [q2] @ w3 @ '','' @ w4
            @ ''ascending'' @ w5 @ ''='' @ w6 @ b @ w2 @ '')'' @ t) c
     = [(t, c(1 \<mapsto> C, 2 \<mapsto> b))]"
proof -
  note [simp] = qs qs [THEN quote_not_space] qs [THEN quote_not_word] hd_ws_word
  show ?thesis
    using ws ids b
    by (auto simp add: pat_sort_def is_ws_def is_ident_def msimps rej simp del: rmatch.simps)
qed

lemma rstrip_append:
  "rstrip (p @ t) = (if list_all is_space t then rstrip p else p @ rstrip t)"
  by (auto simp: rstrip_def dropWhile_append list_all_iff)

lemma rstrip_keep: "p \<noteq> [] \<Longrightarrow> \<not> is_space (last p) \<Longrightarrow> rstrip p = p"
  by (cases p rule: rev_cases) (auto simp: rstrip_def)

lemma rstrip_nil: "list_all is_space t \<Longrightarrow> rstrip t = []"
  by (simp add: rstrip_def list_all_iff)

lemma strip_keep:
  assumes "p \<noteq> []" "\<not> is_space (hd p)" "\<not> is_space (last p)"
  shows "strip (p @ t) = p @ rstrip t"
proof -
  from assms(1,2) have "lstrip (p @ t) = p @ t" by (cases p) (auto simp: lstrip_def)
  then show ?thesis using assms by (simp add: strip_def rstrip_append rstrip_keep rstrip_nil)
qed

lemma set_rstrip: "set (rstrip t) \<subseteq> set t"
  by (auto simp: rstrip_def dest: set_dropWhileD)

lemma ngroups_pats:
  "ngroups pat_groupby = 3" "ngroups pat_sort = 2" "ngroups pat_chain = 3"
  "ngroups pat_filter = 1" "ngroups pat_colagg = 2" "ngroups pat_column = 1"
  by (simp_all add: pat_groupby_def pat_sort_def pat_chain_def pat_filter_def pat_colagg_def
      pat_column_def)

lemma upts: "[Suc 0..<4] = [1, 2, 3]" "[Suc 0..<3] = [1, 2]" "[Suc 0..<2] = [1]"
  by (simp_all add: upt_rec)

lemma re_match_single:
  "rmatch r s Map.empty = (rest, c) # ms \<Longrightarrow> re_match r s = Some (map c [1..<Suc (ngroups r)])"
  by (simp add: re_match_def)

lemma re_match_none: "rmatch r s Map.empty = [] \<Longrightarrow> re_match r s = None"
  by (simp add: re_match_def)

lemma groupby_shape:
  assumes ws: "is_ws w1" "is_ws w2" "is_ws w3" "is_ws w4" "is_ws w5" "is_ws w6" "is_ws w7"
      "is_ws w8" "is_ws w9"
    and qs: "is_quote q1" "is_quote q2" "is_quote q3" "is_quote q4"
    and ids: "is_ident G" "is_ident C" "is_ident F"
  shows "python_to_sql
     (''df.groupby('' @ w1 @ [q1] @ G @ [q2] @ w2 @ '')'' @ w3 @ ''['' @ w4 @ [q3] @ C @ [q4]
        @ w5 @ '']'' @ w6 @ ''.'' @ w7 @ F @ w8 @ ''('' @ w9 @ '')'' @ t) table_name
     = Inr (''SELECT '' @ G @ '', '' @ func_map_get F @ ''('' @ C @ '') FROM '' @ table_name
            @ '' GROUP BY '' @ G @ '';'')"
proof -
  define p where "p = ''df.groupby('' @ w1 @ [q1] @ G @ [q2] @ w2 @ '')'' @ w3 @ ''['' @ w4
      @ [q3] @ C @ [q4] @ w5 @ '']'' @ w6 @ ''.'' @ w7 @ F @ w8 @ ''('' @ w9 @ '')''"
  have "strip (p @ t) = p @ rstrip t"
    by (rule strip_keep) (simp_all add: p_def lit_chars)
  moreover have "rmatch pat_groupby (p @ rstrip t) Map.empty
      = [(rstrip t, [1 \<mapsto> G, 2 \<mapsto> C, 3 \<mapsto> F])]"
    unfolding p_def using groupby_match [OF ws qs ids, of "rstrip t" Map.empty] by simp
  ultimately have "python_to_sql (p @ t) table_name
      = Inr (''SELECT '' @ G @ '', '' @ func_map_get F @ ''('' @ C @ '') FROM '' @ table_name
            @ '' GROUP BY '' @ G @ '';'')"
    by (simp add: python_to_sql_def re_match_def ngroups_pats upts func_map_get_def)
  then show ?thesis by (simp add: p_def)
qed

lemma star_rests_mem:
  "u \<in> set (star_rests P s) \<Longrightarrow> \<exists>w. s = w @ u \<and> list_all P w"
proof (induction s)
  case Nil
  then show ?case by simp
next
  case (Cons x s)
  show ?case
  proof (cases "u = x # s")
    case True
    then show ?thesis by simp
  next
    case False
    with Cons.prems have "P x" "u \<in> set (star_rests P s)" by (auto split: if_splits)
    with Cons.IH obtain w where "s = w @ u" "list_all P w" by blast
    with \<open>P x\<close> have "x # s = (x # w) @ u \<and> list_all P (x # w)" by simp
    then show ?thesis by blast
  qed
qed

lemma seq_mem:
  "x \<in> set (rmatch (Seq r1 r2) s c)
     \<longleftrightarrow> (\<exists>mid c1. (mid, c1) \<in> set (rmatch r1 s c) \<and> x \<in> set (rmatch r2 mid c1))"
  by auto

lemma lit_mem: "(rest, c') \<in> set (rmatch (Lit l) s c) \<longleftrightarrow> s = l @ rest \<and> c' = c"
proof
  assume "(rest, c') \<in> set (rmatch (Lit l) s c)"
  then have "take (length l) s = l" "rest = drop (length l) s" "c' = c"
    by (auto split: if_splits)
  then show "s = l @ rest \<and> c' = c" by (metis append_take_drop_id)
next
  assume "s = l @ rest \<and> c' = c"
  then show "(rest, c') \<in> set (rmatch (Lit l) s c)" by simp
qed

lemma rmatch_consumed:
  "(rest, c') \<in> set (rmatch r s c) \<Longrightarrow> \<exists>p. s = p @ rest \<and> min_count ch r \<le> count_list p ch"
proof (induction r arbitrary: s c rest c')
  case (Lit l)
  then have "s = l @ rest" by (simp only: lit_mem)
  then show ?case by auto
next
  case (Cls k)
  then show ?case by (cases s) (auto split: if_splits intro: exI [of _ "[hd s]"])
next
  case (Star k)
  then show ?case by (auto dest: star_rests_mem)
next
  case (Plus k)
  then obtain x xs where s: "s = x # xs" and "rest \<in> set (star_rests (in_class k) xs)"
    by (cases s) (auto split: if_splits)
  then obtain w where "xs = w @ rest" by (auto dest: star_rests_mem)
  with s have "s = (x # w) @ rest" by simp
  then show ?case by auto
next
  case (Grp n r)
  then obtain c1 where "(rest, c1) \<in> set (rmatch r s c)" by auto
  from Grp.IH [OF this] show ?case by simp
next
  case (Seq r1 r2)
  then obtain mid c1 where m: "(mid, c1) \<in> set (rmatch r1 s c)"
    "(rest, c') \<in> set (rmatch r2 mid c1)" by (auto simp: seq_mem)
  from Seq.IH(1) [OF m(1)] obtain p1 where p1: "s = p1 @ mid" "min_count ch r1 \<le> count_list p1 ch"
    by blast
  from Seq.IH(2) [OF m(2)] obtain p2 where p2: "mid = p2 @ rest" "min_count ch r2 \<le> count_list p2 ch"
    by blast
  from p1 p2 have "s = (p1 @ p2) @ rest \<and> min_count ch (Seq r1 r2) \<le> count_list (p1 @ p2) ch"
    by simp
  then show ?case by blast
next
  case (Alt r1 r2)
  then consider "(rest, c') \<in> set (rmatch r1 s c)" | "(rest, c') \<in> set (rmatch r2 s c)" by auto
  then show ?case
  proof cases
    case 1
    from Alt.IH(1) [OF this] show ?thesis by auto
  next
    case 2
    from Alt.IH(2) [OF this] show ?thesis by auto
  qed
next
  case (Opt r)
  then consider "(rest, c') \<in> set (rmatch r s c)" | "rest = s" by auto
  then show ?case
  proof cases
    case 1
    from Opt.IH [OF this] show ?thesis by auto
  next
    case 2
    then show ?thesis by simp
  qed
next
  case Eos
  then show ?case by (auto split: if_splits)
qed

lemma rmatch_needs:
  "rmatch r s c \<noteq> [] \<Longrightarrow> min_count ch r \<le> count_list s ch"
proof -
  assume "rmatch r s c \<noteq> []"
  then obtain rest c' where "(rest, c') \<in> set (rmatch r s c)"
    by (cases "rmatch r s c") auto
  from rmatch_consumed [OF this, of ch] show ?thesis by auto
qed

lemma chain_needs: "count_list s (CHR '']'') < 2 \<Longrightarrow> rmatch pat_chain s c = []"
proof (rule ccontr)
  assume a: "count_list s (CHR '']'') < 2" "rmatch pat_chain s c \<noteq> []"
  from rmatch_needs [OF a(2), of "CHR '']''"] have "2 \<le> count_list s (CHR '']'')"
    by (simp add: pat_chain_def)
  with a(1) show False by simp
qed

lemma filter_needs:
  assumes "rmatch pat_filter s c \<noteq> []"
  shows "\<exists>a w. s = a @ CHR '']'' # w \<and> list_all is_space w"
proof -
  from assms obtain x where "x \<in> set (rmatch pat_filter s c)"
    by (cases "rmatch pat_filter s c") auto
  then have "\<exists>m1 c1. (m1, c1) \<in> set (rmatch (Lit ''df['') s c) \<and>
      (\<exists>m2 c2. (m2, c2) \<in> set (rmatch (Grp 1 (Plus Dot)) m1 c1) \<and>
      (\<exists>m3 c3. (m3, c3) \<in> set (rmatch (Lit '']'') m2 c2) \<and>
      (\<exists>m4 c4. (m4, c4) \<in> set (rmatch (Star Space) m3 c3) \<and>
         x \<in> set (rmatch Eos m4 c4))))"
    by (simp only: pat_filter_def seqs.simps seq_mem)
  then obtain m1 c1 m2 c2 m3 c3 m4 c4 where
    m: "(m1, c1) \<in> set (rmatch (Lit ''df['') s c)"
       "(m2, c2) \<in> set (rmatch (Grp 1 (Plus Dot)) m1 c1)"
       "(m3, c3) \<in> set (rmatch (Lit '']'') m2 c2)"
       "(m4, c4) \<in> set (rmatch (Star Space) m3 c3)"
       "x \<in> set (rmatch Eos m4 c4)"
    by (elim exE conjE)
  from m(1) have s: "s = ''df['' @ m1" by (simp only: lit_mem)
  from rmatch_consumed [OF m(2), of undefined] obtain p where p: "m1 = p @ m2" by blast
  from m(3) have "m2 = '']'' @ m3" by (simp only: lit_mem)
  then have m2: "m2 = CHR '']'' # m3" by simp
  from m(4) obtain w where w: "m3 = w @ m4" "list_all is_space w"
    by (auto dest: star_rests_mem simp: in_class_Space)
  from m(5) have "list_all is_space m4" by (auto split: if_splits simp: is_space_def)
  with s p m2 w have "s = (''df['' @ p) @ CHR '']'' # (w @ m4) \<and> list_all is_space (w @ m4)"
    by simp
  then show ?thesis by blast
qed

lemma first_occurrence:
  "x \<notin> set u \<Longrightarrow> x \<notin> set v \<Longrightarrow> u @ x # a = v @ x # b \<Longrightarrow> u = v"
proof (induction u arbitrary: v)
  case Nil
  then show ?case by (cases v) auto
next
  case (Cons h u)
  then show ?case by (cases v) auto
qed

lemma filter_rejects:
  assumes "s = b @ CHR '']'' # y" "CHR '']'' \<notin> set y" "\<not> list_all is_space y"
  shows "rmatch pat_filter s c = []"
proof (rule ccontr)
  assume "rmatch pat_filter s c \<noteq> []"
  from filter_needs [OF this] obtain a w where aw: "s = a @ CHR '']'' # w" "list_all is_space w"
    by blast
  from aw(2) have "CHR '']'' \<notin> set w" by (induction w) (auto simp: is_space_def)
  from aw(1) assms(1) have "a @ CHR '']'' # w = b @ CHR '']'' # y" by (rule trans [OF sym])
  then have "rev (a @ CHR '']'' # w) = rev (b @ CHR '']'' # y)" by (rule arg_cong)
  then have eq: "rev w @ CHR '']'' # rev a = rev y @ CHR '']'' # rev b"
    by (simp only: rev_append rev.simps append_assoc append.simps)
  have nw: "CHR '']'' \<notin> set (rev w)" using \<open>CHR '']'' \<notin> set w\<close> by simp
  have ny: "CHR '']'' \<notin> set (rev y)" using assms(2) by simp
  have "rev w = rev y" by (rule first_occurrence [OF nw ny eq])
  then have "w = y" by simp
  with aw(2) assms(3) show False by simp
qed

lemma not_in_class: "list_all P w \<Longrightarrow> \<not> P x \<Longrightarrow> x \<notin> set w"
  by (auto simp: list_all_iff)

lemma count_class: "list_all P w \<Longrightarrow> \<not> P x \<Longrightarrow> count_list w x = 0"
  by (simp add: not_in_class)

lemma quote_neq: "is_quote q \<Longrightarrow> q \<noteq> CHR '']''" "is_quote q \<Longrightarrow> CHR '']'' \<noteq> q"
  by (auto simp: is_quote_def)

lemma colagg_match:
  assumes ws: "is_ws w1" "is_ws w2" "is_ws w3" "is_ws w4"
    and qs: "is_quote q1" "is_quote q2"
    and ids: "is_ident C" "is_ident F"
  shows "rmatch pat_colagg
     (''df['' @ [q1] @ C @ [q2] @ '']'' @ w1 @ ''.'' @ w2 @ F @ w3 @ ''('' @ w4 @ '')'' @ t) c
     = [(t, c(1 \<mapsto> C, 2 \<mapsto> F))]"
proof -
  note [simp] = qs qs [THEN quote_not_space] qs [THEN quote_not_word] hd_ws_word
    hd_ident [OF ids(2)]
  show ?thesis
    using ws ids
    by (simp add: pat_colagg_def is_ws_def is_ident_def msimps rej del: rmatch.simps)
qed

lemma colagg_shape:
  assumes ws: "is_ws w1" "is_ws w2" "is_ws w3" "is_ws w4"
    and qs: "is_quote q1" "is_quote q2"
    and ids: "is_ident C" "is_ident F"
    and t: "CHR '']'' \<notin> set t"
  shows "python_to_sql
     (''df['' @ [q1] @ C @ [q2] @ '']'' @ w1 @ ''.'' @ w2 @ F @ w3 @ ''('' @ w4 @ '')'' @ t)
     table_name
     = Inr (''SELECT '' @ func_map_get F @ ''('' @ C @ '') FROM '' @ table_name @ '';'')"
proof -
  define y where "y = w1 @ ''.'' @ w2 @ F @ w3 @ ''('' @ w4 @ '')''"
  define p where "p = ''df['' @ [q1] @ C @ [q2] @ '']'' @ y"
  define t' where "t' = rstrip t"
  have t': "CHR '']'' \<notin> set t'" using t set_rstrip [of t] by (auto simp: t'_def)
  have W: "list_all is_space w1" "list_all is_space w2" "list_all is_space w3"
    "list_all is_space w4" using ws by (simp_all add: is_ws_def)
  have I: "list_all is_word C" "list_all is_word F" using ids by (simp_all add: is_ident_def)
  have y: "CHR '']'' \<notin> set (y @ t')"
    using t' W I by (simp add: y_def not_in_class lit_chars)
  have strip: "strip (p @ t) = p @ t'"
    unfolding t'_def by (rule strip_keep) (simp_all add: p_def y_def lit_chars)
  have m1: "re_match pat_groupby (p @ t') = None"
    by (rule re_match_none) (simp add: p_def pat_groupby_def msimps del: rmatch.simps)
  have m2: "re_match pat_sort (p @ t') = None"
    by (rule re_match_none) (simp add: p_def pat_sort_def msimps del: rmatch.simps)
  have "count_list (p @ t') (CHR '']'') < 2"
    using y W I qs by (simp add: p_def count_class lit_chars quote_neq)
  then have m3: "re_match pat_chain (p @ t') = None"
    by (intro re_match_none chain_needs)
  have "rmatch pat_filter (p @ t') Map.empty = []"
  proof (rule filter_rejects [OF _ y])
    show "p @ t' = (''df['' @ [q1] @ C @ [q2]) @ CHR '']'' # y @ t'" by (simp add: p_def)
    show "\<not> list_all is_space (y @ t')" by (simp add: y_def lit_chars)
  qed
  then have m4: "re_match pat_filter (p @ t') = None" by (rule re_match_none)
  have "rmatch pat_colagg (p @ t') Map.empty = [(t', [1 \<mapsto> C, 2 \<mapsto> F])]"
    unfolding p_def y_def using colagg_match [OF ws qs ids, of t' Map.empty] by simp
  then have m5: "re_match pat_colagg (p @ t') = Some [Some C, Some F]"
    by (simp add: re_match_def ngroups_pats upts)
  have "python_to_sql (p @ t) table_name
      = Inr (''SELECT '' @ func_map_get F @ ''('' @ C @ '') FROM '' @ table_name @ '';'')"
    by (simp add: python_to_sql_def Let_def strip m1 m2 m3 m4 m5 func_map_get_def)
  then show ?thesis by (simp add: p_def y_def)
qed

lemma star_rests_append:
  "list_all P a \<Longrightarrow> \<exists>L. star_rests P (a @ u) = star_rests P u @ L"
  by (induction a) auto

lemma seq_grp_plus:
  "rmatch (Seq (Grp n (Plus k)) R) (x # xs) c =
     (if in_class k x
      then concat (map (\<lambda>rest. rmatch R rest (c(n \<mapsto> take (Suc (length xs) - length rest) (x # xs))))
                    (star_rests (in_class k) xs))
      else [])"
  by (simp add: comp_def)

lemma suffix_count: "s = w @ rest \<Longrightarrow> count_list rest ch \<le> count_list s ch"
  by simp

lemma rmatch_too_few: "count_list s ch < min_count ch r \<Longrightarrow> rmatch r s c = []"
  using rmatch_needs [of r s c ch] by (cases "rmatch r s c = []") auto

lemma first_after_fail:
  "list_all (\<lambda>y. f y = []) A \<Longrightarrow> concat (map f (A @ u # L)) = f u @ concat (map f L)"
  by (induction A) auto

lemma pat_chain_tail: "pat_chain = Seq (Lit ''df['') (Seq (Grp 1 (Plus Dot)) chain_tail)"
  by (simp add: pat_chain_def chain_tail_def)

lemma chain_tail_match:
  assumes ws: "is_ws w1" "is_ws w2" "is_ws w3" "is_ws w4" "is_ws w5" "is_ws w6" "is_ws w7"
    and qs: "is_quote q1" "is_quote q2"
    and ids: "is_ident C" "is_ident F"
  shows "rmatch chain_tail
     ('']'' @ w1 @ ''['' @ w2 @ [q1] @ C @ [q2] @ w3 @ '']'' @ w4 @ ''.'' @ w5 @ F @ w6
        @ ''('' @ w7 @ '')'' @ t) c
     = [(t, c(2 \<mapsto> C, 3 \<mapsto> F))]"
proof -
  note [simp] = qs qs [THEN quote_not_space] qs [THEN quote_not_word] hd_ws_word
    hd_ident [OF ids(2)]
  show ?thesis
    using ws ids
    by (simp add: chain_tail_def is_ws_def is_ident_def msimps rej del: rmatch.simps)
qed

lemma sort_plain_shape:
  assumes ws: "is_ws w1" "is_ws w2"
    and qs: "is_quote q1" "is_quote q2"
    and ids: "is_ident C"
  shows "python_to_sql (''df.sort_values('' @ w1 @ [q1] @ C @ [q2] @ w2 @ '')'' @ t) table_name
     = Inr (''SELECT * FROM '' @ table_name @ '' ORDER BY '' @ C @ '' ASC;'')"
proof -
  define p where "p = ''df.sort_values('' @ w1 @ [q1] @ C @ [q2] @ w2 @ '')''"
  have strip: "strip (p @ t) = p @ rstrip t"
    by (rule strip_keep) (simp_all add: p_def lit_chars)
  have m1: "re_match pat_groupby (p @ rstrip t) = None"
    by (rule re_match_none) (simp add: p_def pat_groupby_def msimps del: rmatch.simps)
  have "rmatch pat_sort (p @ rstrip t) Map.empty = [(rstrip t, [1 \<mapsto> C])]"
    unfolding p_def using sort_match_plain [OF ws qs ids, of "rstrip t" Map.empty] by simp
  then have m2: "re_match pat_sort (p @ rstrip t) = Some [Some C, None]"
    by (simp add: re_match_def ngroups_pats upts)
  have "python_to_sql (p @ t) table_name
     = Inr (''SELECT * FROM '' @ table_name @ '' ORDER BY '' @ C @ '' ASC;'')"
    by (simp add: python_to_sql_def Let_def strip m1 m2)
  then show ?thesis by (simp add: p_def)
qed

lemma sort_asc_shape:
  assumes ws: "is_ws w1" "is_ws w2" "is_ws w3" "is_ws w4" "is_ws w5" "is_ws w6"
    and qs: "is_quote q1" "is_quote q2"
    and ids: "is_ident C"
    and b: "b = ''True'' \<or> b = ''False''"
  shows "python_to_sql (''df.sort_values('' @ w1 @ [q1] @ C @ [q2] @ w3 @ '','' @ w4
            @ ''ascending'' @ w5 @ ''='' @ w6 @ b @ w2 @ '')'' @ t) table_name
     = Inr (''SELECT * FROM '' @ table_name @ '' ORDER BY '' @ C
            @ (if b = ''False'' then '' DESC;'' else '' ASC;''))"
proof -
  define p where "p = ''df.sort_values('' @ w1 @ [q1] @ C @ [q2] @ w3 @ '','' @ w4
            @ ''ascending'' @ w5 @ ''='' @ w6 @ b @ w2 @ '')''"
  have strip: "strip (p @ t) = p @ rstrip t"
    by (rule strip_keep) (simp_all add: p_def lit_chars)
  have m1: "re_match pat_groupby (p @ rstrip t) = None"
    by (rule re_match_none) (simp add: p_def pat_groupby_def msimps del: rmatch.simps)
  have "rmatch pat_sort (p @ rstrip t) Map.empty = [(rstrip t, [1 \<mapsto> C, 2 \<mapsto> b])]"
    unfolding p_def using sort_match_asc [OF ws qs ids b, of "rstrip t" Map.empty] by simp
  then have m2: "re_match pat_sort (p @ rstrip t) = Some [Some C, Some b]"
    by (simp add: re_match_def ngroups_pats upts)
  have "python_to_sql (p @ t) table_name
     = Inr (''SELECT * FROM '' @ table_name @ '' ORDER BY '' @ C
            @ (if b = ''False'' then '' DESC;'' else '' ASC;''))"
    by (simp add: python_to_sql_def Let_def strip m1 m2)
  then show ?thesis by (simp add: p_def)
qed


section \<open>Leading whitespace, trailing text and the end anchor\<close>

lemma lstrip_ws: "list_all is_space l \<Longrightarrow> lstrip (l @ s) = lstrip s"
  by (simp add: lstrip_def dropWhile_append list_all_iff)

lemma strip_leading: "is_ws l \<Longrightarrow> strip (l @ s) = strip s"
  by (simp add: strip_def lstrip_ws is_ws_def)

lemma python_to_sql_leading:
  "is_ws l \<Longrightarrow> python_to_sql (l @ s) table_name = python_to_sql s table_name"
  by (simp add: python_to_sql_def strip_leading)

lemma list_all2_concat_map:
  "list_all2 Q xs ys \<Longrightarrow> (\<And>x y. Q x y \<Longrightarrow> list_all2 R (f x) (g y))
     \<Longrightarrow> list_all2 R (concat (map f xs)) (concat (map g ys))"
  by (induction rule: list_all2_induct) (auto intro: list_all2_appendI)

lemma rmatch_rests:
  "list_all2 (\<lambda>x y. fst x = fst y) (rmatch r s c) (rmatch r s c')"
proof (induction r arbitrary: s c c')
  case (Lit l)
  then show ?case by simp
next
  case (Cls k)
  then show ?case by (cases s) auto
next
  case (Star k)
  then show ?case by (simp add: list_all2_map1 list_all2_map2 list_all2_same)
next
  case (Plus k)
  then show ?case by (cases s) (auto simp: list_all2_map1 list_all2_map2 list_all2_same)
next
  case (Grp n r)
  have "list_all2 (\<lambda>x y. fst x = fst y) (rmatch r s c) (rmatch r s c')" by (rule Grp.IH)
  then show ?case
    by (auto simp: list_all2_map1 list_all2_map2 split_def elim: list_all2_mono)
next
  case (Seq r1 r2)
  have "list_all2 (\<lambda>x y. fst x = fst y)
      (concat (map (\<lambda>x. rmatch r2 (fst x) (snd x)) (rmatch r1 s c)))
      (concat (map (\<lambda>x. rmatch r2 (fst x) (snd x)) (rmatch r1 s c')))"
  proof (rule list_all2_concat_map [OF Seq.IH(1)])
    fix x y :: "string \<times> caps"
    assume "fst x = fst y"
    then show "list_all2 (\<lambda>x y. fst x = fst y) (rmatch r2 (fst x) (snd x))
        (rmatch r2 (fst y) (snd y))"
      using Seq.IH(2) [of "fst y" "snd x" "snd y"] by simp
  qed
  then show ?case by (simp add: split_def)
next
  case (Alt r1 r2)
  then show ?case by (auto intro: list_all2_appendI)
next
  case (Opt r)
  then show ?case by (auto intro: list_all2_appendI)
next
  case Eos
  then show ?case by simp
qed

lemma rmatch_nil_caps: "rmatch r s c = [] \<Longrightarrow> rmatch r s c' = []"
  using rmatch_rests [of r s c c'] by simp

lemma re_match_none_iff: "re_match r s = None \<longleftrightarrow> rmatch r s Map.empty = []"
  by (auto simp: re_match_def split: list.splits)

lemma star_rests_cases:
  "r \<in> set (star_rests P (A @ B)) \<Longrightarrow>
     (\<exists>p v. v \<noteq> [] \<and> A = p @ v \<and> r = v @ B) \<or> (list_all P A \<and> r \<in> set (star_rests P B))"
proof (induction A)
  case Nil
  then show ?case by simp
next
  case (Cons x A)
  show ?case
  proof (cases "r = x # A @ B")
    case True
    then have "x # A \<noteq> [] \<and> x # A = [] @ (x # A) \<and> r = (x # A) @ B" by simp
    then show ?thesis by blast
  next
    case False
    with Cons.prems have x: "P x" and r: "r \<in> set (star_rests P (A @ B))"
      by (auto split: if_splits)
    from Cons.IH [OF r] show ?thesis
    proof
      assume "\<exists>p v. v \<noteq> [] \<and> A = p @ v \<and> r = v @ B"
      then obtain p v where "v \<noteq> []" "A = p @ v" "r = v @ B" by blast
      then have "v \<noteq> [] \<and> x # A = (x # p) @ v \<and> r = v @ B" by simp
      then show ?thesis by blast
    next
      assume "list_all P A \<and> r \<in> set (star_rests P B)"
      with x show ?thesis by simp
    qed
  qed
qed

lemma chain_tail_head: "x \<noteq> CHR '']'' \<Longrightarrow> rmatch chain_tail (x # s) c = []"
  by (simp add: chain_tail_def msimps del: rmatch.simps)

lemma chain_tail_part:
  "v \<noteq> [] \<Longrightarrow> A = p @ v \<Longrightarrow> CHR '']'' \<notin> set A \<Longrightarrow> rmatch chain_tail (v @ B) c = []"
  by (cases v) (auto simp: chain_tail_head)

lemma chain_tail_dot:
  "is_ws w \<Longrightarrow> rmatch chain_tail (CHR '']'' # w @ CHR ''.'' # s) c = []"
  by (simp add: chain_tail_def is_ws_def msimps rej del: rmatch.simps)

lemma rstrip_last: "rstrip t = [] \<or> \<not> is_space (last (rstrip t))"
proof (cases "dropWhile is_space (rev t)")
  case Nil
  then show ?thesis by (simp add: rstrip_def)
next
  case (Cons x xs)
  then have "\<not> is_space x" using hd_dropWhile [of is_space "rev t"] by simp
  with Cons show ?thesis by (simp add: rstrip_def)
qed

lemma rstrip_is_nil: "rstrip t = [] \<longleftrightarrow> list_all is_space t"
  by (simp add: rstrip_def list_all_iff)

lemma strip_shape:
  assumes "is_ws l" "p \<noteq> []" "\<not> is_space (hd p)" "\<not> is_space (last p)"
  shows "strip (l @ p @ t) = p @ rstrip t"
  using strip_leading [OF assms(1)] strip_keep [OF assms(2-4)] by simp

lemma plus_mem:
  "(rest, c') \<in> set (rmatch (Grp n (Plus k)) s c)
     \<Longrightarrow> \<exists>p. s = p @ rest \<and> p \<noteq> [] \<and> list_all (in_class k) p"
proof -
  assume a: "(rest, c') \<in> set (rmatch (Grp n (Plus k)) s c)"
  then obtain x xs where s: "s = x # xs" by (cases s) auto
  with a have x: "in_class k x" and r: "rest \<in> set (star_rests (in_class k) xs)"
    by (auto split: if_splits)
  from star_rests_mem [OF r] obtain w where "xs = w @ rest" "list_all (in_class k) w" by blast
  with s x have "s = (x # w) @ rest \<and> x # w \<noteq> [] \<and> list_all (in_class k) (x # w)" by simp
  then show ?thesis by blast
qed

lemma filter_parts:
  assumes "rmatch pat_filter s c \<noteq> []"
  shows "\<exists>cond w. s = ''df['' @ cond @ CHR '']'' # w \<and> cond \<noteq> [] \<and> nl \<notin> set cond
           \<and> list_all is_space w"
proof -
  from assms obtain x where "x \<in> set (rmatch pat_filter s c)"
    by (cases "rmatch pat_filter s c") auto
  then have "\<exists>m1 c1. (m1, c1) \<in> set (rmatch (Lit ''df['') s c) \<and>
      (\<exists>m2 c2. (m2, c2) \<in> set (rmatch (Grp 1 (Plus Dot)) m1 c1) \<and>
      (\<exists>m3 c3. (m3, c3) \<in> set (rmatch (Lit '']'') m2 c2) \<and>
      (\<exists>m4 c4. (m4, c4) \<in> set (rmatch (Star Space) m3 c3) \<and>
         x \<in> set (rmatch Eos m4 c4))))"
    by (simp only: pat_filter_def seqs.simps seq_mem)
  then obtain m1 c1 m2 c2 m3 c3 m4 c4 where
    m: "(m1, c1) \<in> set (rmatch (Lit ''df['') s c)"
       "(m2, c2) \<in> set (rmatch (Grp 1 (Plus Dot)) m1 c1)"
       "(m3, c3) \<in> set (rmatch (Lit '']'') m2 c2)"
       "(m4, c4) \<in> set (rmatch (Star Space) m3 c3)"
       "x \<in> set (rmatch Eos m4 c4)"
    by (elim exE conjE)
  from m(1) have s: "s = ''df['' @ m1" by (simp only: lit_mem)
  from plus_mem [OF m(2)] obtain p where p: "m1 = p @ m2" "p \<noteq> []" "list_all (in_class Dot) p"
    by blast
  from p(3) have np: "nl \<notin> set p" by (auto simp: list_all_iff)
  from m(3) have "m2 = '']'' @ m3" by (simp only: lit_mem)
  then have m2: "m2 = CHR '']'' # m3" by simp
  from m(4) obtain w where w: "m3 = w @ m4" "list_all is_space w"
    by (auto dest: star_rests_mem simp: in_class_Space)
  from m(5) have "list_all is_space m4" by (auto split: if_splits simp: is_space_def)
  with s p m2 w np have "s = ''df['' @ p @ CHR '']'' # (w @ m4) \<and> p \<noteq> [] \<and> nl \<notin> set p
      \<and> list_all is_space (w @ m4)"
    by simp
  then show ?thesis by blast
qed

lemma filter_trimmed:
  assumes m: "rmatch pat_filter (''df['' @ B @ t) c \<noteq> []"
    and B: "B \<noteq> []" "last B \<noteq> CHR '']''" "\<not> is_space (last B)"
    and t: "t = [] \<or> \<not> is_space (last t)"
  shows "ends_filter t \<and> nl \<notin> set B"
proof -
  from filter_parts [OF m] obtain cond w where
    e: "''df['' @ B @ t = ''df['' @ cond @ CHR '']'' # w" and cond: "nl \<notin> set cond"
    and w: "list_all is_space w" by blast
  from e have e': "B @ t = cond @ CHR '']'' # w" by simp
  have l: "\<not> is_space (last (B @ t))" using B t by (cases "t = []") auto
  have "w = []"
  proof (rule ccontr)
    assume "w \<noteq> []"
    then have "last (cond @ CHR '']'' # w) = last w" by simp
    moreover from w \<open>w \<noteq> []\<close> have "is_space (last w)" by (simp add: list_all_iff)
    ultimately show False using l e' by simp
  qed
  with e' have e2: "B @ t = cond @ [CHR '']'']" by simp
  then have "last (B @ t) = CHR '']''" by simp
  with B have tn: "t \<noteq> []" by auto
  with \<open>last (B @ t) = CHR '']''\<close> have lt: "last t = CHR '']''" by simp
  from tn have "B @ t = (B @ butlast t) @ [last t]" by simp
  with e2 have "(B @ butlast t) @ [last t] = cond @ [CHR '']'']" by simp
  then have "B @ butlast t = cond" by (simp only: append1_eq_conv)
  with cond have "nl \<notin> set B" "nl \<notin> set (butlast t)" by auto
  moreover have "set t = insert (last t) (set (butlast t))"
    using tn by (metis append_butlast_last_id list.simps(15) rotate1.simps(2) set_rotate1)
  ultimately show ?thesis using tn lt by (simp add: ends_filter_def)
qed


lemma chain_tail_fails:
  assumes Xa: "CHR '']'' \<notin> set Xa" and Xb: "CHR '']'' \<notin> set Xb"
    and dot: "Xb = w @ CHR ''.'' # z" "is_ws w"
    and H: "list_all (in_class Dot) (Xa @ Xb) \<Longrightarrow> \<not> chain_again t"
    and r: "r \<in> set (star_rests (in_class Dot) (Xa @ CHR '']'' # Xb @ t))"
  shows "rmatch chain_tail r c = []"
proof -
  from star_rests_cases [OF r] show ?thesis
  proof
    assume "\<exists>p v. v \<noteq> [] \<and> Xa = p @ v \<and> r = v @ CHR '']'' # Xb @ t"
    then show ?thesis using Xa by (auto intro: chain_tail_part)
  next
    assume A: "list_all (in_class Dot) Xa
        \<and> r \<in> set (star_rests (in_class Dot) (CHR '']'' # Xb @ t))"
    then consider "r = CHR '']'' # Xb @ t" | "r \<in> set (star_rests (in_class Dot) (Xb @ t))"
      by auto
    then show ?thesis
    proof cases
      case 1
      then show ?thesis using chain_tail_dot [OF dot(2)] by (simp add: dot(1))
    next
      case 2
      from star_rests_cases [OF this] show ?thesis
      proof
        assume "\<exists>p v. v \<noteq> [] \<and> Xb = p @ v \<and> r = v @ t"
        then show ?thesis using Xb by (auto intro: chain_tail_part)
      next
        assume B: "list_all (in_class Dot) Xb \<and> r \<in> set (star_rests (in_class Dot) t)"
        with A H have "\<not> chain_again t" by simp
        with B have "re_match chain_tail r = None"
          by (auto simp: chain_again_def list_ex_iff)
        then have "rmatch chain_tail r Map.empty = []" by (simp add: re_match_none_iff)
        then show ?thesis by (rule rmatch_nil_caps)
      qed
    qed
  qed
qed

lemma colagg_exact:
  assumes ws: "is_ws w1" "is_ws w2" "is_ws w3" "is_ws w4"
    and qs: "is_quote q1" "is_quote q2"
    and ids: "is_ident C" "is_ident F"
    and l: "is_ws l"
    and H: "nl \<in> set (w1 @ w2 @ w3 @ w4)
             \<or> \<not> chain_again (rstrip t) \<and> \<not> ends_filter (rstrip t)"
  shows "python_to_sql
     (l @ ''df['' @ [q1] @ C @ [q2] @ '']'' @ w1 @ ''.'' @ w2 @ F @ w3 @ ''('' @ w4 @ '')'' @ t)
     table_name
     = Inr (''SELECT '' @ func_map_get F @ ''('' @ C @ '') FROM '' @ table_name @ '';'')"
proof -
  define y where "y = w1 @ ''.'' @ w2 @ F @ w3 @ ''('' @ w4 @ '')''"
  define B where "B = [q1] @ C @ [q2] @ '']'' @ y"
  define p where "p = ''df['' @ B"
  define t' where "t' = rstrip t"
  have W: "list_all is_space w1" "list_all is_space w2" "list_all is_space w3"
    "list_all is_space w4" using ws by (simp_all add: is_ws_def)
  have I: "list_all is_word C" "list_all is_word F" using ids by (simp_all add: is_ident_def)
  have y: "CHR '']'' \<notin> set y" using W I by (simp add: y_def not_in_class lit_chars)
  have Cq: "CHR '']'' \<notin> set (C @ [q2])" using I qs by (simp add: not_in_class lit_chars quote_neq)
  have nlB: "nl \<in> set (w1 @ w2 @ w3 @ w4) \<Longrightarrow> nl \<in> set B" by (auto simp: B_def y_def)
  have dots: "list_all (in_class Dot) ((C @ [q2]) @ y) \<Longrightarrow> nl \<notin> set (w1 @ w2 @ w3 @ w4)"
    by (auto simp: y_def list_all_iff)
  have strip: "strip (l @ p @ t) = p @ t'"
    unfolding t'_def by (rule strip_shape [OF l]) (simp_all add: p_def B_def y_def lit_chars)
  have m1: "re_match pat_groupby (p @ t') = None"
    by (rule re_match_none) (simp add: p_def B_def pat_groupby_def msimps del: rmatch.simps)
  have m2: "re_match pat_sort (p @ t') = None"
    by (rule re_match_none) (simp add: p_def B_def pat_sort_def msimps del: rmatch.simps)
  have fail: "rmatch chain_tail r c = []"
    if "r \<in> set (star_rests (in_class Dot) ((C @ [q2]) @ CHR '']'' # y @ t'))" for r c
  proof (rule chain_tail_fails [OF Cq y _ ws(1) _ that])
    show "y = w1 @ CHR ''.'' # w2 @ F @ w3 @ ''('' @ w4 @ '')''" by (simp add: y_def)
    assume "list_all (in_class Dot) ((C @ [q2]) @ y)"
    with dots H show "\<not> chain_again t'" by (auto simp: t'_def)
  qed
  have "rmatch (Seq (Grp 1 (Plus Dot)) chain_tail) (q1 # (C @ [q2]) @ CHR '']'' # y @ t')
      Map.empty = []"
    unfolding seq_grp_plus by (simp add: concat_map_all_nil list_all_iff fail del: rmatch.simps)
  then have "rmatch pat_chain (p @ t') Map.empty = []"
    by (simp add: pat_chain_tail p_def B_def msimps del: rmatch.simps)
  then have m3: "re_match pat_chain (p @ t') = None" by (rule re_match_none)
  have "rmatch pat_filter (p @ t') Map.empty = []"
  proof (rule ccontr)
    assume "rmatch pat_filter (p @ t') Map.empty \<noteq> []"
    then have "rmatch pat_filter (''df['' @ B @ t') Map.empty \<noteq> []" by (simp add: p_def)
    then have "ends_filter t' \<and> nl \<notin> set B"
    proof (rule filter_trimmed)
      show "B \<noteq> []" "last B \<noteq> CHR '']''" "\<not> is_space (last B)"
        by (simp_all add: B_def y_def lit_chars)
      show "t' = [] \<or> \<not> is_space (last t')" unfolding t'_def by (rule rstrip_last)
    qed
    with H nlB show False by (auto simp: t'_def)
  qed
  then have m4: "re_match pat_filter (p @ t') = None" by (rule re_match_none)
  have "rmatch pat_colagg (p @ t') Map.empty = [(t', [1 \<mapsto> C, 2 \<mapsto> F])]"
    unfolding p_def B_def y_def using colagg_match [OF ws qs ids, of t' Map.empty] by simp
  then have m5: "re_match pat_colagg (p @ t') = Some [Some C, Some F]"
    by (simp add: re_match_def ngroups_pats upts)
  have "python_to_sql (l @ p @ t) table_name
      = Inr (''SELECT '' @ func_map_get F @ ''('' @ C @ '') FROM '' @ table_name @ '';'')"
    by (simp add: python_to_sql_def Let_def strip m1 m2 m3 m4 m5 func_map_get_def)
  then show ?thesis by (simp add: p_def B_def y_def)
qed

lemma chain_match_again:
  assumes ws: "is_ws w1" "is_ws w2" "is_ws w3" "is_ws w4" "is_ws w5" "is_ws w6" "is_ws w7"
    and qs: "is_quote q1" "is_quote q2"
    and ids: "is_ident C" "is_ident F"
    and cond: "cond \<noteq> []" "nl \<notin> set cond"
    and H: "nl \<in> set (w1 @ w2 @ w3 @ w4 @ w5 @ w6 @ w7) \<or> \<not> chain_again t"
  shows "\<exists>ms. rmatch pat_chain
     (''df['' @ cond @ '']'' @ w1 @ ''['' @ w2 @ [q1] @ C @ [q2] @ w3 @ '']'' @ w4 @ ''.''
        @ w5 @ F @ w6 @ ''('' @ w7 @ '')'' @ t) c
     = (t, c(1 \<mapsto> cond, 2 \<mapsto> C, 3 \<mapsto> F)) # ms"
proof -
  define Xa where "Xa = w1 @ ''['' @ w2 @ [q1] @ C @ [q2] @ w3"
  define Xb where "Xb = w4 @ ''.'' @ w5 @ F @ w6 @ ''('' @ w7 @ '')''"
  define X where "X = Xa @ CHR '']'' # Xb @ t"
  define u where "u = CHR '']'' # X"
  obtain x a where xa: "cond = x # a" using cond(1) by (cases cond) auto
  with cond(2) have x: "in_class Dot x" and a: "list_all (in_class Dot) a"
    by (auto simp: list_all_iff)
  have W: "list_all is_space w1" "list_all is_space w2" "list_all is_space w3"
    "list_all is_space w4" "list_all is_space w5" "list_all is_space w6" "list_all is_space w7"
    using ws by (simp_all add: is_ws_def)
  have I: "list_all is_word C" "list_all is_word F" using ids by (simp_all add: is_ident_def)
  have nXa: "CHR '']'' \<notin> set Xa"
    using W I qs by (simp add: Xa_def not_in_class lit_chars quote_neq)
  have nXb: "CHR '']'' \<notin> set Xb"
    using W I by (simp add: Xb_def not_in_class lit_chars)
  have dots: "list_all (in_class Dot) (Xa @ Xb)
      \<Longrightarrow> nl \<notin> set (w1 @ w2 @ w3 @ w4 @ w5 @ w6 @ w7)"
    by (auto simp: Xa_def Xb_def list_all_iff)
  from star_rests_append [OF a, of u] obtain L where
    L: "star_rests (in_class Dot) (a @ u) = star_rests (in_class Dot) u @ L" by blast
  have u_rests: "star_rests (in_class Dot) u = star_rests (in_class Dot) X @ [u]"
    by (simp add: u_def)
  have fail: "rmatch chain_tail r c' = []" if r: "r \<in> set (star_rests (in_class Dot) X)"
    for r c'
  proof (rule chain_tail_fails [OF nXa nXb _ ws(4)])
    show "Xb = w4 @ CHR ''.'' # w5 @ F @ w6 @ ''('' @ w7 @ '')''" by (simp add: Xb_def)
    show "r \<in> set (star_rests (in_class Dot) (Xa @ CHR '']'' # Xb @ t))"
      using r by (simp add: X_def)
    assume "list_all (in_class Dot) (Xa @ Xb)"
    with dots H show "\<not> chain_again t" by blast
  qed
  have len: "take (Suc (length (a @ u)) - length u) (x # a @ u) = x # a" by simp
  have tail: "rmatch chain_tail u c' = [(t, c'(2 \<mapsto> C, 3 \<mapsto> F))]" for c'
    using chain_tail_match [OF ws qs ids, of t c'] by (simp add: u_def X_def Xa_def Xb_def)
  define f where "f = (\<lambda>rest. rmatch chain_tail rest
            (c(1 \<mapsto> take (Suc (length (a @ u)) - length rest) (x # a @ u))))"
  have "rmatch (Seq (Grp 1 (Plus Dot)) chain_tail) (x # a @ u) c
      = concat (map f (star_rests (in_class Dot) X @ u # L))"
    using x by (simp add: seq_grp_plus L u_rests f_def del: rmatch.simps)
  also have "\<dots> = f u @ concat (map f L)"
    by (rule first_after_fail) (simp add: list_all_iff fail f_def)
  also have "f u = [(t, c(1 \<mapsto> x # a, 2 \<mapsto> C, 3 \<mapsto> F))]"
    by (simp add: f_def len tail)
  finally have "\<exists>ms. rmatch (Seq (Grp 1 (Plus Dot)) chain_tail) (x # a @ u) c
      = (t, c(1 \<mapsto> x # a, 2 \<mapsto> C, 3 \<mapsto> F)) # ms"
    by simp
  then show ?thesis
    by (simp add: pat_chain_tail xa u_def X_def Xa_def Xb_def msimps del: rmatch.simps)
qed

lemma chain_exact:
  assumes ws: "is_ws w1" "is_ws w2" "is_ws w3" "is_ws w4" "is_ws w5" "is_ws w6" "is_ws w7"
    and qs: "is_quote q1" "is_quote q2"
    and ids: "is_ident C" "is_ident F"
    and cond: "cond \<noteq> []" "nl \<notin> set cond"
    and l: "is_ws l"
    and H: "nl \<in> set (w1 @ w2 @ w3 @ w4 @ w5 @ w6 @ w7) \<or> \<not> chain_again (rstrip t)"
  shows "python_to_sql
     (l @ ''df['' @ cond @ '']'' @ w1 @ ''['' @ w2 @ [q1] @ C @ [q2] @ w3 @ '']'' @ w4 @ ''.''
        @ w5 @ F @ w6 @ ''('' @ w7 @ '')'' @ t) table_name
     = Inr (''SELECT '' @ func_map_get F @ ''('' @ C @ '') FROM '' @ table_name
            @ '' WHERE '' @ replace_series_refs cond @ '';'')"
proof -
  define p where "p = ''df['' @ cond @ '']'' @ w1 @ ''['' @ w2 @ [q1] @ C @ [q2] @ w3 @ '']''
      @ w4 @ ''.'' @ w5 @ F @ w6 @ ''('' @ w7 @ '')''"
  define t' where "t' = rstrip t"
  have strip: "strip (l @ p @ t) = p @ t'"
    unfolding t'_def by (rule strip_shape [OF l]) (simp_all add: p_def lit_chars)
  have m1: "re_match pat_groupby (p @ t') = None"
    by (rule re_match_none) (simp add: p_def pat_groupby_def msimps del: rmatch.simps)
  have m2: "re_match pat_sort (p @ t') = None"
    by (rule re_match_none) (simp add: p_def pat_sort_def msimps del: rmatch.simps)
  from H have "nl \<in> set (w1 @ w2 @ w3 @ w4 @ w5 @ w6 @ w7) \<or> \<not> chain_again t'"
    by (simp add: t'_def)
  from chain_match_again [OF ws qs ids cond this, of Map.empty] obtain ms where
    "rmatch pat_chain (p @ t') Map.empty = (t', [1 \<mapsto> cond, 2 \<mapsto> C, 3 \<mapsto> F]) # ms"
    by (auto simp: p_def)
  then have m3: "re_match pat_chain (p @ t') = Some [Some cond, Some C, Some F]"
    by (simp add: re_match_def ngroups_pats upts)
  have "python_to_sql (l @ p @ t) table_name
     = Inr (''SELECT '' @ func_map_get F @ ''('' @ C @ '') FROM '' @ table_name
            @ '' WHERE '' @ replace_series_refs cond @ '';'')"
    by (simp add: python_to_sql_def Let_def strip m1 m2 m3)
  then show ?thesis by (simp add: p_def)
qed

lemma chain_again_nil: "\<not> chain_again []"
  by (simp add: chain_again_def re_match_def chain_tail_def)

lemma seq_rest:
  "x \<in> set (rmatch (Seq r1 r2) s c) \<Longrightarrow> (\<And>m c1 y. y \<in> set (rmatch r2 m c1) \<Longrightarrow> P (fst y))
     \<Longrightarrow> P (fst x)"
proof -
  assume x: "x \<in> set (rmatch (Seq r1 r2) s c)"
    and P: "\<And>m c1 y. y \<in> set (rmatch r2 m c1) \<Longrightarrow> P (fst y)"
  from x obtain mid c1 where "x \<in> set (rmatch r2 mid c1)" unfolding seq_mem by blast
  then show "P (fst x)" by (rule P)
qed

lemma eos_rest: "y \<in> set (rmatch Eos m c) \<Longrightarrow> fst y = [] \<or> fst y = [nl]"
  by (auto split: if_splits)

lemma filter_anchored:
  "list_all (\<lambda>x. fst x = [] \<or> fst x = [nl]) (rmatch pat_filter s c)"
  unfolding list_all_iff pat_filter_def seqs.simps
  by (intro ballI) (erule seq_rest, erule seq_rest, erule seq_rest, erule seq_rest,
      erule eos_rest)

lemma column_anchored:
  "list_all (\<lambda>x. fst x = [] \<or> fst x = [nl]) (rmatch pat_column s c)"
  unfolding list_all_iff pat_column_def seqs.simps
  by (intro ballI) (erule seq_rest, erule seq_rest, erule seq_rest, erule seq_rest,
      erule seq_rest, erule seq_rest, erule eos_rest)

lemma star_eos_ws:
  "list_all is_space t \<Longrightarrow> \<exists>ms. rmatch (Seq (Star Space) Eos) t c = ([], c) # ms"
proof (induction t)
  case Nil
  then show ?case by simp
next
  case (Cons x t)
  then obtain ms where "rmatch (Seq (Star Space) Eos) t c = ([], c) # ms" by auto
  with Cons.prems show ?case by (simp del: rmatch.simps(9)) 
qed

lemma star_eos_none:
  "\<not> list_all is_space t \<Longrightarrow> rmatch (Seq (Star Space) Eos) t c = []"
proof (induction t)
  case Nil
  then show ?case by simp
next
  case (Cons x t)
  show ?case
  proof (cases "is_space x")
    case True
    with Cons.prems have "\<not> list_all is_space t" by simp
    from Cons.IH [OF this] have "rmatch (Seq (Star Space) Eos) t c = []" .
    moreover have "x # t \<noteq> [nl]" using Cons.prems True \<open>\<not> list_all is_space t\<close> by auto
    ultimately show ?thesis using True by simp
  next
    case False
    then have "x # t \<noteq> [nl]" by (auto simp: is_space_def)
    with False show ?thesis by simp
  qed
qed

lemma column_match:
  assumes qs: "is_quote q1" "is_quote q2" and ids: "is_ident C"
  shows "re_match pat_column (''df['' @ [q1] @ C @ [q2] @ '']'' @ t)
     = (if is_ws t then Some [Some C] else None)"
proof -
  note [simp] = qs qs [THEN quote_not_space] qs [THEN quote_not_word]
  have step: "rmatch pat_column (''df['' @ [q1] @ C @ [q2] @ '']'' @ t) Map.empty
      = rmatch (Seq (Star Space) Eos) t [1 \<mapsto> C]"
    using ids by (simp add: pat_column_def is_ident_def msimps rej del: rmatch.simps)
  show ?thesis
  proof (cases "is_ws t")
    case True
    then obtain ms where "rmatch (Seq (Star Space) Eos) t [1 \<mapsto> C] = ([], [1 \<mapsto> C]) # ms"
      using star_eos_ws [of t] by (auto simp: is_ws_def)
    with True step show ?thesis by (simp add: re_match_def ngroups_pats upts del: rmatch.simps)
  next
    case False
    then have "rmatch (Seq (Star Space) Eos) t [1 \<mapsto> C] = []"
      by (intro star_eos_none) (simp add: is_ws_def)
    with False step show ?thesis by (simp add: re_match_def del: rmatch.simps)
  qed
qed

lemma seq_cls_not_quote:
  "\<not> is_quote x \<Longrightarrow> rmatch (Seq (Cls Quote) r) (x # s) c = []"
  by (simp add: is_quote_def)

lemma rstrip_from:
  "\<not> is_space x \<Longrightarrow> \<exists>r'. rstrip (w @ x # r) = w @ x # r'"
proof -
  assume x: "\<not> is_space x"
  have "rstrip ([x] @ r) = (if list_all is_space r then rstrip [x] else [x] @ rstrip r)"
    by (rule rstrip_append)
  moreover have "rstrip [x] = [x]" using x by (simp add: rstrip_def)
  ultimately obtain r' where r': "rstrip (x # r) = x # r'" by (cases "list_all is_space r") auto
  have "rstrip (w @ x # r) = w @ rstrip (x # r)" using x by (simp add: rstrip_append)
  with r' show ?thesis by simp
qed

lemma groupby_arg_reject:
  assumes l: "is_ws l" and w: "is_ws w" and x: "\<not> is_quote x" "\<not> is_space x"
  shows "python_to_sql (l @ ''df.groupby('' @ w @ x # r) table_name = Inr unsupported"
proof -
  from rstrip_from [OF x(2)] obtain r' where r': "rstrip (w @ x # r) = w @ x # r'" by blast
  have strip: "strip (l @ ''df.groupby('' @ w @ x # r) = ''df.groupby('' @ w @ x # r'"
    using strip_shape [OF l, of "''df.groupby(''" "w @ x # r"] r' by (simp add: lit_chars)
  note [simp] = x seq_cls_not_quote
  have m1: "re_match pat_groupby (''df.groupby('' @ w @ x # r') = None"
    using w by (intro re_match_none)
      (simp add: pat_groupby_def is_ws_def msimps rej del: rmatch.simps)
  have m2: "re_match pat_sort (''df.groupby('' @ w @ x # r') = None"
    by (rule re_match_none) (simp add: pat_sort_def msimps del: rmatch.simps)
  have m3: "re_match pat_chain (''df.groupby('' @ w @ x # r') = None"
    by (rule re_match_none) (simp add: pat_chain_def msimps del: rmatch.simps)
  have m4: "re_match pat_filter (''df.groupby('' @ w @ x # r') = None"
    by (rule re_match_none) (simp add: pat_filter_def msimps del: rmatch.simps)
  have m5: "re_match pat_colagg (''df.groupby('' @ w @ x # r') = None"
    by (rule re_match_none) (simp add: pat_colagg_def msimps del: rmatch.simps)
  have m6: "re_match pat_column (''df.groupby('' @ w @ x # r') = None"
    by (rule re_match_none) (simp add: pat_column_def msimps del: rmatch.simps)
  show ?thesis by (simp only: python_to_sql_def Let_def strip m1 m2 m3 m4 m5 m6 option.case)
qed

lemma sort_arg_reject:
  assumes l: "is_ws l" and w: "is_ws w" and x: "\<not> is_quote x" "\<not> is_space x"
  shows "python_to_sql (l @ ''df.sort_values('' @ w @ x # r) table_name = Inr unsupported"
proof -
  from rstrip_from [OF x(2)] obtain r' where r': "rstrip (w @ x # r) = w @ x # r'" by blast
  have strip: "strip (l @ ''df.sort_values('' @ w @ x # r) = ''df.sort_values('' @ w @ x # r'"
    using strip_shape [OF l, of "''df.sort_values(''" "w @ x # r"] r' by (simp add: lit_chars)
  note [simp] = x seq_cls_not_quote
  have m1: "re_match pat_groupby (''df.sort_values('' @ w @ x # r') = None"
    by (rule re_match_none) (simp add: pat_groupby_def msimps del: rmatch.simps)
  have m2: "re_match pat_sort (''df.sort_values('' @ w @ x # r') = None"
    using w by (intro re_match_none)
      (simp add: pat_sort_def is_ws_def msimps rej del: rmatch.simps)
  have m3: "re_match pat_chain (''df.sort_values('' @ w @ x # r') = None"
    by (rule re_match_none) (simp add: pat_chain_def msimps del: rmatch.simps)
  have m4: "re_match pat_filter (''df.sort_values('' @ w @ x # r') = None"
    by (rule re_match_none) (simp add: pat_filter_def msimps del: rmatch.simps)
  have m5: "re_match pat_colagg (''df.sort_values('' @ w @ x # r') = None"
    by (rule re_match_none) (simp add: pat_colagg_def msimps del: rmatch.simps)
  have m6: "re_match pat_column (''df.sort_values('' @ w @ x # r') = None"
    by (rule re_match_none) (simp add: pat_column_def msimps del: rmatch.simps)
  show ?thesis by (simp only: python_to_sql_def Let_def strip m1 m2 m3 m4 m5 m6 option.case)
qed

lemma filter_match:
  assumes cond: "cond \<noteq> []" "nl \<notin> set cond"
  shows "\<exists>ms. rmatch pat_filter (''df['' @ cond @ '']'') c = ([], c(1 \<mapsto> cond)) # ms"
proof -
  obtain x a where xa: "cond = x # a" using cond(1) by (cases cond) auto
  with cond(2) have x: "in_class Dot x" and a: "list_all (in_class Dot) a"
    by (auto simp: list_all_iff)
  define R where "R = Seq (Lit '']'') (Seq (Star Space) Eos)"
  from star_rests_append [OF a, of "'']''"] obtain L where
    L: "star_rests (in_class Dot) (a @ '']'') = star_rests (in_class Dot) '']'' @ L" by blast
  have rests: "star_rests (in_class Dot) '']'' = [[]] @ '']'' # []" by simp
  define f where "f = (\<lambda>rest. rmatch R rest
            (c(1 \<mapsto> take (Suc (length (a @ '']'')) - length rest) (x # a @ '']''))))"
  have "rmatch (Seq (Grp 1 (Plus Dot)) R) (x # a @ '']'') c
      = concat (map f ([[]] @ '']'' # L))"
    using x by (simp add: seq_grp_plus L f_def del: rmatch.simps)
  also have "\<dots> = f '']'' @ concat (map f L)"
    by (rule first_after_fail) (simp add: f_def R_def)
  also have "f '']'' = [([], c(1 \<mapsto> x # a))]"
    by (simp add: f_def R_def)
  finally have "\<exists>ms. rmatch (Seq (Grp 1 (Plus Dot)) R) (x # a @ '']'') c
      = ([], c(1 \<mapsto> x # a)) # ms"
    by simp
  then show ?thesis
    by (simp add: pat_filter_def R_def xa msimps del: rmatch.simps)
qed

lemma filter_exact:
  assumes l: "is_ws l"
    and cond: "cond \<noteq> []" "nl \<notin> set cond" "CHR '']'' \<notin> set cond" "\<not> is_quote (hd cond)"
    and t: "CHR '']'' \<notin> set t"
  shows "python_to_sql (l @ ''df['' @ cond @ '']'' @ t) table_name
     = (if is_ws t
        then Inr (''SELECT * FROM '' @ table_name @ '' WHERE '' @ replace_series_refs cond @ '';'')
        else Inr unsupported)"
proof -
  define p where "p = ''df['' @ cond @ '']''"
  define t' where "t' = rstrip t"
  obtain x a where xa: "cond = x # a" using cond(1) by (cases cond) auto
  have t': "CHR '']'' \<notin> set t'" using t set_rstrip [of t] by (auto simp: t'_def)
  have strip: "strip (l @ p @ t) = p @ t'"
    unfolding t'_def by (rule strip_shape [OF l]) (simp_all add: p_def lit_chars)
  have m1: "re_match pat_groupby (p @ t') = None"
    by (rule re_match_none) (simp add: p_def pat_groupby_def msimps del: rmatch.simps)
  have m2: "re_match pat_sort (p @ t') = None"
    by (rule re_match_none) (simp add: p_def pat_sort_def msimps del: rmatch.simps)
  have "count_list (p @ t') (CHR '']'') < 2"
    using cond(3) t' by (simp add: p_def)
  then have m3: "re_match pat_chain (p @ t') = None"
    by (intro re_match_none chain_needs)
  show ?thesis
  proof (cases "is_ws t")
    case True
    then have e: "t' = []" by (simp add: t'_def is_ws_def rstrip_nil)
    from filter_match [OF cond(1,2), of Map.empty] obtain ms where
      "rmatch pat_filter (p @ t') Map.empty = ([], [1 \<mapsto> cond]) # ms"
      by (auto simp: p_def e)
    then have m4: "re_match pat_filter (p @ t') = Some [Some cond]"
      by (simp add: re_match_def ngroups_pats upts)
    have "python_to_sql (l @ p @ t) table_name
       = Inr (''SELECT * FROM '' @ table_name @ '' WHERE '' @ replace_series_refs cond @ '';'')"
      by (simp add: python_to_sql_def Let_def strip m1 m2 m3 m4 build_filter_def group_def)
    with True show ?thesis by (simp add: p_def)
  next
    case False
    then have "t' \<noteq> []" by (simp add: t'_def is_ws_def rstrip_is_nil)
    moreover from this have "\<not> is_space (last t')"
      using rstrip_last [of t] by (simp add: t'_def)
    ultimately have ne: "\<not> list_all is_space t'" by (auto simp: list_all_iff)
    have "rmatch pat_filter (p @ t') Map.empty = []"
    proof (rule filter_rejects [OF _ t' ne])
      show "p @ t' = (''df['' @ cond) @ CHR '']'' # t'" by (simp add: p_def)
    qed
    then have m4: "re_match pat_filter (p @ t') = None" by (rule re_match_none)
    note [simp] = seq_cls_not_quote
    have m5: "re_match pat_colagg (p @ t') = None"
      using cond(4) by (intro re_match_none)
        (simp add: p_def xa pat_colagg_def msimps del: rmatch.simps)
    have m6: "re_match pat_column (p @ t') = None"
      using cond(4) by (intro re_match_none)
        (simp add: p_def xa pat_column_def msimps del: rmatch.simps)
    have "python_to_sql (l @ p @ t) table_name = Inr unsupported"
      by (simp only: python_to_sql_def Let_def strip m1 m2 m3 m4 m5 m6 option.case)
    with False show ?thesis by (simp add: p_def)
  qed
qed

lemma bracket_reject:
  "\<not> is_quote x \<Longrightarrow> re_match pat_colagg (''df['' @ x # r) = None"
  "\<not> is_quote x \<Longrightarrow> re_match pat_column (''df['' @ x # r) = None"
  by (rule re_match_none, simp add: pat_colagg_def seq_cls_not_quote msimps del: rmatch.simps,
      rule re_match_none, simp add: pat_column_def seq_cls_not_quote msimps del: rmatch.simps)


section \<open>Facts about the helpers\<close>


lemma startswith_char: "startswith s [c] \<longleftrightarrow> s \<noteq> [] \<and> hd s = c"
  by (cases s) (auto simp: startswith_def)

lemma endswith_char: "endswith s [c] \<longleftrightarrow> s \<noteq> [] \<and> last s = c"
proof (cases s rule: rev_cases)
  case Nil
  then show ?thesis by (simp add: endswith_def)
next
  case (snoc ys y)
  then show ?thesis by (auto simp: endswith_def)
qed


section \<open>The groups of a match, and that the converter always returns\<close>


lemma caps_grow:
  "(rest, c') \<in> set (rmatch r s c) \<Longrightarrow> dom c \<union> sure_groups r \<subseteq> dom c'"
proof (induction r arbitrary: s c rest c')
  case (Lit l)
  then show ?case by (auto split: if_splits)
next
  case (Cls k)
  then show ?case by (cases s) (auto split: if_splits)
next
  case (Star k)
  then show ?case by auto
next
  case (Plus k)
  then show ?case by (cases s) (auto split: if_splits)
next
  case (Grp n r)
  then obtain c1 where c1: "(rest, c1) \<in> set (rmatch r s c)"
    and c': "c' = c1(n \<mapsto> take (length s - length rest) s)" by auto
  from Grp.IH [OF c1] c' show ?case by auto
next
  case (Seq r1 r2)
  then obtain mid c1 where m: "(mid, c1) \<in> set (rmatch r1 s c)"
    "(rest, c') \<in> set (rmatch r2 mid c1)" by (auto simp: seq_mem)
  from Seq.IH(1) [OF m(1)] Seq.IH(2) [OF m(2)] show ?case
    unfolding sure_groups.simps by blast
next
  case (Alt r1 r2)
  then consider "(rest, c') \<in> set (rmatch r1 s c)" | "(rest, c') \<in> set (rmatch r2 s c)" by auto
  then show ?case
  proof cases
    case 1
    from Alt.IH(1) [OF this] show ?thesis by auto
  next
    case 2
    from Alt.IH(2) [OF this] show ?thesis by auto
  qed
next
  case (Opt r)
  then consider "(rest, c') \<in> set (rmatch r s c)" | "c' = c" by auto
  then show ?case
  proof cases
    case 1
    from Opt.IH [OF this] show ?thesis by auto
  next
    case 2
    then show ?thesis by simp
  qed
next
  case Eos
  then show ?case by (auto split: if_splits)
qed

lemma re_match_sure:
  assumes "re_match r s = Some m"
  shows "\<exists>c. m = map c [1..<Suc (ngroups r)] \<and> sure_groups r \<subseteq> dom c"
proof -
  from assms obtain rest c ms where ms: "rmatch r s Map.empty = (rest, c) # ms"
    and m: "m = map c [1..<Suc (ngroups r)]"
    by (auto simp: re_match_def split: list.splits)
  from ms have "(rest, c) \<in> set (rmatch r s Map.empty)" by simp
  from caps_grow [OF this] m show ?thesis by auto
qed

lemma sure_pats:
  "sure_groups pat_groupby = {1, 2, 3}" "sure_groups pat_sort = {1}"
  "sure_groups pat_chain = {1, 2, 3}" "sure_groups pat_filter = {1}"
  "sure_groups pat_colagg = {1, 2}" "sure_groups pat_column = {1}"
  by (auto simp: pat_groupby_def pat_sort_def pat_chain_def pat_filter_def pat_colagg_def
      pat_column_def)

lemma groups_groupby:
  "re_match pat_groupby s = Some m \<Longrightarrow> \<exists>a b c. m = [Some a, Some b, Some c]"
  by (drule re_match_sure) (auto simp: ngroups_pats sure_pats upts)

lemma groups_sort: "re_match pat_sort s = Some m \<Longrightarrow> \<exists>a b. m = [Some a, b]"
  by (drule re_match_sure) (auto simp: ngroups_pats sure_pats upts)

lemma groups_chain:
  "re_match pat_chain s = Some m \<Longrightarrow> \<exists>a b c. m = [Some a, Some b, Some c]"
  by (drule re_match_sure) (auto simp: ngroups_pats sure_pats upts)

lemma groups_filter: "re_match pat_filter s = Some m \<Longrightarrow> \<exists>a. m = [Some a]"
  by (drule re_match_sure) (auto simp: ngroups_pats sure_pats upts)

lemma groups_colagg: "re_match pat_colagg s = Some m \<Longrightarrow> \<exists>a b. m = [Some a, Some b]"
  by (drule re_match_sure) (auto simp: ngroups_pats sure_pats upts)

lemma groups_column: "re_match pat_column s = Some m \<Longrightarrow> \<exists>a. m = [Some a]"
  by (drule re_match_sure) (auto simp: ngroups_pats sure_pats upts)

lemma python_to_sql_total: "\<exists>sql. python_to_sql python_code table_name = Inr sql"
proof -
  define code where "code = strip python_code"
  show ?thesis
  proof (cases "re_match pat_groupby code")
    case (Some m)
    from groups_groupby [OF this] Some show ?thesis
      by (auto simp: python_to_sql_def Let_def code_def)
  next
    case n1: None
    show ?thesis
    proof (cases "re_match pat_sort code")
      case (Some m)
      from groups_sort [OF this] Some n1 show ?thesis
        by (auto simp: python_to_sql_def Let_def code_def)
    next
      case n2: None
      show ?thesis
      proof (cases "re_match pat_chain code")
        case (Some m)
        from groups_chain [OF this] Some n1 n2 show ?thesis
          by (auto simp: python_to_sql_def Let_def code_def)
      next
        case n3: None
        show ?thesis
        proof (cases "re_match pat_filter code")
          case (Some m)
          from groups_filter [OF this] Some n1 n2 n3 show ?thesis
            by (auto simp: python_to_sql_def Let_def code_def build_filter_def group_def)
        next
          case n4: None
          show ?thesis
          proof (cases "re_match pat_colagg code")
            case (Some m)
            from groups_colagg [OF this] Some n1 n2 n3 n4 show ?thesis
              by (auto simp: python_to_sql_def Let_def code_def)
          next
            case n5: None
            show ?thesis
            proof (cases "re_match pat_column code")
              case (Some m)
              from groups_column [OF this] Some n1 n2 n3 n4 n5 show ?thesis
                by (auto simp: python_to_sql_def Let_def code_def build_column_def group_def)
            next
              case None
              with n1 n2 n3 n4 n5 show ?thesis
                by (simp add: python_to_sql_def Let_def code_def)
            qed
          qed
        qed
      qed
    qed
  qed
qed

section \<open>The worked examples\<close>

text \<open>
  C1. The specification gives \<open>SELECT age FROM employees;\<close> for \<open>df['age']\<close>, the plain
  column select. On the code the filter template, which is tried before the column
  templates, already matches this input with the condition \<open>'age'\<close>, so the result is a
  filter statement.
\<close>

theorem column_select_taken_as_filter:
  "python_to_sql ''df['age']'' ''employees'' = Inr ''SELECT * FROM employees WHERE 'age';''"
  by code_simp

text \<open>
  C3. For the chained filter and aggregate of the specification, the chain template
  captures the condition up to the last \<open>]\<close> before the \<open>['salary'].sum()\<close> suffix, the
  normalizer rewrites it, and the result is the \<open>SUM\<close> statement with that \<open>WHERE\<close> clause.
\<close>

theorem chained_filter_aggregate_example:
  "re_match pat_chain ''df[(df['age'] > 30) & (df['city'] == 'Chennai')]['salary'].sum()''
     = Some [Some ''(df['age'] > 30) & (df['city'] == 'Chennai')'', Some ''salary'', Some ''sum'']
   \<and> replace_series_refs ''(df['age'] > 30) & (df['city'] == 'Chennai')''
     = ''(age > 30) AND (city = 'Chennai')''
   \<and> python_to_sql ''df[(df['age'] > 30) & (df['city'] == 'Chennai')]['salary'].sum()''
       ''employees''
     = Inr ''SELECT SUM(salary) FROM employees WHERE (age > 30) AND (city = 'Chennai');''"
  by code_simp

section \<open>The recognizers on every input of their shape\<close>



text \<open>
  C6. The alias table maps \<open>mean\<close>, \<open>sum\<close>, \<open>count\<close>, \<open>min\<close>, \<open>max\<close> and \<open>median\<close> to
  \<open>AVG\<close>, \<open>SUM\<close>, \<open>COUNT\<close>, \<open>MIN\<close>, \<open>MAX\<close> and \<open>MEDIAN\<close>. Any other name is put in upper
  case and used as it is: the lookup is never an error, and the column aggregate of a
  name the table does not have is translated with the upper-cased name, as
  \<open>df['x'].std()\<close> is.
\<close>

theorem aggregate_function_names:
  "func_map_get ''mean'' = ''AVG'' \<and> func_map_get ''sum'' = ''SUM''
   \<and> func_map_get ''count'' = ''COUNT'' \<and> func_map_get ''min'' = ''MIN''
   \<and> func_map_get ''max'' = ''MAX'' \<and> func_map_get ''median'' = ''MEDIAN''
   \<and> (func \<notin> set [''mean'', ''sum'', ''count'', ''min'', ''max'', ''median'']
        \<longrightarrow> func_map_get func = upper func)
   \<and> sql_func (Some func) = Inr (func_map_get func)
   \<and> (is_ident func \<and> func \<notin> set [''mean'', ''sum'', ''count'', ''min'', ''max'', ''median'']
        \<longrightarrow> python_to_sql (''df['x'].'' @ func @ ''()'') ''employees''
            = Inr (''SELECT '' @ upper func @ ''(x) FROM employees;''))
   \<and> python_to_sql ''df['x'].std()'' ''employees'' = Inr ''SELECT STD(x) FROM employees;''"
proof -
  have known: "func_map_get ''mean'' = ''AVG''" "func_map_get ''sum'' = ''SUM''"
    "func_map_get ''count'' = ''COUNT''" "func_map_get ''min'' = ''MIN''"
    "func_map_get ''max'' = ''MAX''" "func_map_get ''median'' = ''MEDIAN''"
    by (simp_all add: func_map_get_def FUNC_MAP_def)
  have other: "func_map_get func = upper func"
    if "func \<notin> set [''mean'', ''sum'', ''count'', ''min'', ''max'', ''median'']"
    using that by (simp add: func_map_get_def FUNC_MAP_def)
  have shape: "python_to_sql (''df['x'].'' @ func @ ''()'') ''employees''
      = Inr (''SELECT '' @ upper func @ ''(x) FROM employees;'')"
    if "is_ident func" "func \<notin> set [''mean'', ''sum'', ''count'', ''min'', ''max'', ''median'']"
    using colagg_shape [of "[]" "[]" "[]" "[]" sq sq "''x''" func "[]" "''employees''"] that
      other [OF that(2)]
    by (simp add: is_ws_def is_quote_def is_ident_def is_word_def lower_letters_def)
  have ex: "python_to_sql ''df['x'].std()'' ''employees'' = Inr ''SELECT STD(x) FROM employees;''"
    by code_simp
  from known other shape ex show ?thesis by simp
qed

theorem aggregate_function_names_witness:
  "''var'' \<notin> set [''mean'', ''sum'', ''count'', ''min'', ''max'', ''median'']
   \<and> is_ident ''var'' \<and> func_map_get ''var'' = ''VAR''
   \<and> python_to_sql ''df['x'].var()'' ''employees'' = Inr ''SELECT VAR(x) FROM employees;''"
  using aggregate_function_names [of "''var''"]
  by (simp add: is_ident_def is_word_def lower_letters_def upper_letters_def upper_def
      upper_char_def)

text \<open>
  C5. Every input of the sort shape \<open>df.sort_values('C')\<close>, with or without an
  \<open>ascending\<close> argument, is translated to \<open>SELECT * FROM table ORDER BY C\<close> followed by
  \<open>ASC\<close> when the argument is left out or is \<open>True\<close>, and by \<open>DESC\<close> when it is \<open>False\<close>.
\<close>

theorem sort_order:
  assumes "is_ws w1" "is_ws w2" "is_ws w3" "is_ws w4" "is_ws w5" "is_ws w6"
    and "is_quote q1" "is_quote q2"
    and "is_ident C"
  shows "python_to_sql (''df.sort_values('' @ w1 @ [q1] @ C @ [q2] @ w2 @ '')'') table_name
     = Inr (''SELECT * FROM '' @ table_name @ '' ORDER BY '' @ C @ '' ASC;'')
   \<and> python_to_sql (''df.sort_values('' @ w1 @ [q1] @ C @ [q2] @ w3 @ '','' @ w4
            @ ''ascending'' @ w5 @ ''='' @ w6 @ ''True'' @ w2 @ '')'') table_name
     = Inr (''SELECT * FROM '' @ table_name @ '' ORDER BY '' @ C @ '' ASC;'')
   \<and> python_to_sql (''df.sort_values('' @ w1 @ [q1] @ C @ [q2] @ w3 @ '','' @ w4
            @ ''ascending'' @ w5 @ ''='' @ w6 @ ''False'' @ w2 @ '')'') table_name
     = Inr (''SELECT * FROM '' @ table_name @ '' ORDER BY '' @ C @ '' DESC;'')
   \<and> python_to_sql ''df.sort_values('salary', ascending=False)'' ''employees''
     = Inr ''SELECT * FROM employees ORDER BY salary DESC;''"
proof -
  have plain: "python_to_sql (''df.sort_values('' @ w1 @ [q1] @ C @ [q2] @ w2 @ '')'') table_name
     = Inr (''SELECT * FROM '' @ table_name @ '' ORDER BY '' @ C @ '' ASC;'')"
    using sort_plain_shape [OF assms(1,2,7,8,9), of "[]" table_name] by simp
  have asc: "python_to_sql (''df.sort_values('' @ w1 @ [q1] @ C @ [q2] @ w3 @ '','' @ w4
            @ ''ascending'' @ w5 @ ''='' @ w6 @ ''True'' @ w2 @ '')'') table_name
     = Inr (''SELECT * FROM '' @ table_name @ '' ORDER BY '' @ C @ '' ASC;'')"
    using sort_asc_shape [OF assms, of "''True''" "[]" table_name] by simp
  have desc: "python_to_sql (''df.sort_values('' @ w1 @ [q1] @ C @ [q2] @ w3 @ '','' @ w4
            @ ''ascending'' @ w5 @ ''='' @ w6 @ ''False'' @ w2 @ '')'') table_name
     = Inr (''SELECT * FROM '' @ table_name @ '' ORDER BY '' @ C @ '' DESC;'')"
    using sort_asc_shape [OF assms, of "''False''" "[]" table_name] by simp
  have ex: "python_to_sql ''df.sort_values('salary', ascending=False)'' ''employees''
     = Inr ''SELECT * FROM employees ORDER BY salary DESC;''"
    by code_simp
  from plain asc desc ex show ?thesis by (intro conjI)
qed

theorem sort_order_witness:
  "is_ws [] \<and> is_ws '' '' \<and> is_quote sq \<and> is_quote dq \<and> is_ident ''age''
   \<and> python_to_sql ''df.sort_values('age\")'' ''staff''
     = Inr ''SELECT * FROM staff ORDER BY age ASC;''
   \<and> python_to_sql ''df.sort_values('age\", ascending=True)'' ''staff''
     = Inr ''SELECT * FROM staff ORDER BY age ASC;''
   \<and> python_to_sql ''df.sort_values('age\", ascending=False)'' ''staff''
     = Inr ''SELECT * FROM staff ORDER BY age DESC;''"
  using sort_order [of "[]" "[]" "[]" "'' ''" "[]" "[]" sq dq "''age''" "''staff''"]
  by (simp add: is_ws_def is_quote_def is_ident_def is_space_def is_word_def lower_letters_def)

section \<open>Trailing text, whitespace and quotes\<close>

text \<open>
  C10. The specification's reading of the missing end anchor, that any text after an
  input of shape 1, 2, 3 or 5 is ignored, fails on the code: a \<open>]\<close> in the trailing text
  lets the filter template take the column aggregate, and lets the condition of the chain
  template run on into the trailing text.
\<close>

theorem trailing_text_counterexample:
  "python_to_sql ''df['x'].sum()'' ''employees'' = Inr ''SELECT SUM(x) FROM employees;''
   \<and> python_to_sql ''df['x'].sum()]'' ''employees''
     = Inr ''SELECT * FROM employees WHERE 'x'].sum();''
   \<and> python_to_sql ''df[a]['c'].sum()'' ''employees''
     = Inr ''SELECT SUM(c) FROM employees WHERE a;''
   \<and> python_to_sql ''df[a]['c'].sum()]['d'].max()'' ''employees''
     = Inr ''SELECT MAX(d) FROM employees WHERE a]['c'].sum();''"
  by code_simp

text \<open>
  C10 as amended. The input is trimmed, and the templates 1, 2, 3 and 5 have no end
  anchor. Whitespace \<open>l\<close> before an input of one of their shapes is dropped. Any text \<open>t\<close>
  after an input of the group-by shape \<open>gb\<close> or of the sort shape \<open>so\<close>, \<open>sa\<close> is ignored:
  the translation of the shape alone is returned. Text after an input of the chained
  shape \<open>ch\<close> is ignored unless the rest of the chain template matches once more at a
  place of the trimmed trailing text that the condition group reaches (\<open>chain_again\<close>);
  with a line break in the whitespace of the shape the group reaches no such place. Text
  after an input of the column-aggregate shape \<open>ca\<close> is ignored unless the chain template
  matches in that way, or the trimmed trailing text ends in \<open>]\<close> and has no line break
  (\<open>ends_filter\<close>, the filter template then takes the whole text); with a line break in
  the whitespace of the shape it is ignored.

  The templates 4 and 6 end in \<open>\s*$\<close>: every match of them reaches the end of the text
  or the line break that ends it. Template 6 matches a column select followed by a text
  \<open>u\<close> exactly when \<open>u\<close> is whitespace. An input \<open>df[cond]\<close> followed by \<open>u\<close>, with no \<open>]\<close> in
  \<open>cond\<close> and \<open>u\<close> and no quote at the start of \<open>cond\<close>, is a filter when \<open>u\<close> is whitespace
  and is not recognized otherwise.
\<close>

theorem trailing_text_ignored:
  assumes "is_ws l"
    and "is_ws w1" "is_ws w2" "is_ws w3" "is_ws w4" "is_ws w5" "is_ws w6" "is_ws w7"
      "is_ws w8" "is_ws w9"
    and "is_quote q1" "is_quote q2" "is_quote q3" "is_quote q4"
    and "is_ident G" "is_ident C" "is_ident F"
    and "b = ''True'' \<or> b = ''False''"
    and "cond \<noteq> []" "nl \<notin> set cond"
    and "gb = ''df.groupby('' @ w1 @ [q1] @ G @ [q2] @ w2 @ '')'' @ w3 @ ''['' @ w4 @ [q3] @ C
          @ [q4] @ w5 @ '']'' @ w6 @ ''.'' @ w7 @ F @ w8 @ ''('' @ w9 @ '')''"
    and "so = ''df.sort_values('' @ w1 @ [q1] @ C @ [q2] @ w2 @ '')''"
    and "sa = ''df.sort_values('' @ w1 @ [q1] @ C @ [q2] @ w3 @ '','' @ w4 @ ''ascending'' @ w5
          @ ''='' @ w6 @ b @ w2 @ '')''"
    and "ch = ''df['' @ cond @ '']'' @ w1 @ ''['' @ w2 @ [q1] @ C @ [q2] @ w3 @ '']'' @ w4
          @ ''.'' @ w5 @ F @ w6 @ ''('' @ w7 @ '')''"
    and "ca = ''df['' @ [q1] @ C @ [q2] @ '']'' @ w1 @ ''.'' @ w2 @ F @ w3 @ ''('' @ w4 @ '')''"
  shows "python_to_sql (l @ gb @ t) table_name = python_to_sql gb table_name
   \<and> python_to_sql gb table_name
     = Inr (''SELECT '' @ G @ '', '' @ func_map_get F @ ''('' @ C @ '') FROM '' @ table_name
            @ '' GROUP BY '' @ G @ '';'')
   \<and> python_to_sql (l @ so @ t) table_name = python_to_sql so table_name
   \<and> python_to_sql so table_name
     = Inr (''SELECT * FROM '' @ table_name @ '' ORDER BY '' @ C @ '' ASC;'')
   \<and> python_to_sql (l @ sa @ t) table_name = python_to_sql sa table_name
   \<and> python_to_sql sa table_name
     = Inr (''SELECT * FROM '' @ table_name @ '' ORDER BY '' @ C
            @ (if b = ''False'' then '' DESC;'' else '' ASC;''))
   \<and> (nl \<in> set (w1 @ w2 @ w3 @ w4 @ w5 @ w6 @ w7) \<or> \<not> chain_again (rstrip t)
        \<longrightarrow> python_to_sql (l @ ch @ t) table_name = python_to_sql ch table_name)
   \<and> python_to_sql ch table_name
     = Inr (''SELECT '' @ func_map_get F @ ''('' @ C @ '') FROM '' @ table_name
            @ '' WHERE '' @ replace_series_refs cond @ '';'')
   \<and> (nl \<in> set (w1 @ w2 @ w3 @ w4)
          \<or> \<not> chain_again (rstrip t) \<and> \<not> ends_filter (rstrip t)
        \<longrightarrow> python_to_sql (l @ ca @ t) table_name = python_to_sql ca table_name)
   \<and> python_to_sql ca table_name
     = Inr (''SELECT '' @ func_map_get F @ ''('' @ C @ '') FROM '' @ table_name @ '';'')
   \<and> list_all (\<lambda>m. fst m = [] \<or> fst m = [nl]) (rmatch pat_filter s c)
   \<and> list_all (\<lambda>m. fst m = [] \<or> fst m = [nl]) (rmatch pat_column s c)
   \<and> re_match pat_column (''df['' @ [q1] @ C @ [q2] @ '']'' @ u)
     = (if is_ws u then Some [Some C] else None)
   \<and> (CHR '']'' \<notin> set cond \<and> \<not> is_quote (hd cond) \<and> CHR '']'' \<notin> set u
        \<longrightarrow> python_to_sql (l @ ''df['' @ cond @ '']'' @ u) table_name
            = (if is_ws u
               then Inr (''SELECT * FROM '' @ table_name @ '' WHERE ''
                         @ replace_series_refs cond @ '';'')
               else Inr unsupported))"
proof -
  have e: "is_ws []" by (simp add: is_ws_def)
  have lead: "python_to_sql (l @ x) table_name = python_to_sql x table_name" for x
    using assms(1) by (rule python_to_sql_leading)
  note g = groupby_shape [OF assms(2-10) assms(11-14) assms(15-17)]
  have g1: "python_to_sql (l @ gb @ t) table_name = python_to_sql gb table_name"
    using g [of t table_name] g [of "[]" table_name] by (simp add: lead assms(21))
  have g2: "python_to_sql gb table_name
     = Inr (''SELECT '' @ G @ '', '' @ func_map_get F @ ''('' @ C @ '') FROM '' @ table_name
            @ '' GROUP BY '' @ G @ '';'')"
    using g [of "[]" table_name] by (simp add: assms(21))
  note p = sort_plain_shape [OF assms(2,3,11,12,16)]
  have p1: "python_to_sql (l @ so @ t) table_name = python_to_sql so table_name"
    using p [of t table_name] p [of "[]" table_name] by (simp add: lead assms(22))
  have p2: "python_to_sql so table_name
     = Inr (''SELECT * FROM '' @ table_name @ '' ORDER BY '' @ C @ '' ASC;'')"
    using p [of "[]" table_name] by (simp add: assms(22))
  note a = sort_asc_shape [OF assms(2-7,11,12,16,18)]
  have a1: "python_to_sql (l @ sa @ t) table_name = python_to_sql sa table_name"
    using a [of t table_name] a [of "[]" table_name] by (simp add: lead assms(23))
  have a2: "python_to_sql sa table_name
     = Inr (''SELECT * FROM '' @ table_name @ '' ORDER BY '' @ C
            @ (if b = ''False'' then '' DESC;'' else '' ASC;''))"
    using a [of "[]" table_name] by (simp add: assms(23))
  note k = chain_exact [OF assms(2-8,11,12,16,17,19,20)]
  have k2: "python_to_sql ch table_name
     = Inr (''SELECT '' @ func_map_get F @ ''('' @ C @ '') FROM '' @ table_name
            @ '' WHERE '' @ replace_series_refs cond @ '';'')"
    using k [OF e, of "[]" table_name] by (simp add: assms(24) rstrip_def chain_again_nil)
  have k1: "python_to_sql (l @ ch @ t) table_name = python_to_sql ch table_name"
    if "nl \<in> set (w1 @ w2 @ w3 @ w4 @ w5 @ w6 @ w7) \<or> \<not> chain_again (rstrip t)"
    using k [OF assms(1) that, of table_name] k2 by (simp add: assms(24))
  note o = colagg_exact [OF assms(2-5,11,12,16,17)]
  have o2: "python_to_sql ca table_name
     = Inr (''SELECT '' @ func_map_get F @ ''('' @ C @ '') FROM '' @ table_name @ '';'')"
    using o [OF e, of "[]" table_name]
    by (simp add: assms(25) rstrip_def chain_again_nil ends_filter_def)
  have o1: "python_to_sql (l @ ca @ t) table_name = python_to_sql ca table_name"
    if "nl \<in> set (w1 @ w2 @ w3 @ w4)
        \<or> \<not> chain_again (rstrip t) \<and> \<not> ends_filter (rstrip t)"
    using o [OF assms(1) that, of table_name] o2 by (simp add: assms(25))
  note f4 = filter_anchored [of s c]
  note f6 = column_anchored [of s c]
  note c6 = column_match [OF assms(11,12,16), of u]
  have c4: "python_to_sql (l @ ''df['' @ cond @ '']'' @ u) table_name
      = (if is_ws u
         then Inr (''SELECT * FROM '' @ table_name @ '' WHERE ''
                   @ replace_series_refs cond @ '';'')
         else Inr unsupported)"
    if "CHR '']'' \<notin> set cond \<and> \<not> is_quote (hd cond) \<and> CHR '']'' \<notin> set u"
    using that filter_exact [OF assms(1,19,20), of u table_name] by blast
  from g1 g2 p1 p2 a1 a2 k1 k2 o1 o2 f4 f6 c6 c4 show ?thesis by blast
qed

theorem trailing_text_ignored_witness:
  "is_ws ''  '' \<and> is_ws [] \<and> is_quote sq \<and> is_ident ''a'' \<and> is_ident ''b''
   \<and> is_ident ''sum'' \<and> nl \<notin> set ''x > 1''
   \<and> \<not> chain_again (rstrip '']x  '') \<and> \<not> ends_filter (rstrip '']x  '')
   \<and> CHR '']'' \<notin> set ''x > 1'' \<and> \<not> is_quote (hd ''x > 1'') \<and> CHR '']'' \<notin> set '' x''
   \<and> python_to_sql ''  df.groupby('a')['b'].sum()]x  '' ''t''
     = Inr ''SELECT a, SUM(b) FROM t GROUP BY a;''
   \<and> python_to_sql ''  df.sort_values('b')]x  '' ''t'' = Inr ''SELECT * FROM t ORDER BY b ASC;''
   \<and> python_to_sql ''  df.sort_values('b',ascending=False)]x  '' ''t''
     = Inr ''SELECT * FROM t ORDER BY b DESC;''
   \<and> python_to_sql ''  df[x > 1]['b'].sum()]x  '' ''t''
     = Inr (''SELECT SUM(b) FROM t WHERE '' @ replace_series_refs ''x > 1'' @ '';'')
   \<and> python_to_sql ''  df['b'].sum()]x  '' ''t'' = Inr ''SELECT SUM(b) FROM t;''
   \<and> list_all (\<lambda>m. fst m = [] \<or> fst m = [nl]) (rmatch pat_filter ''df[x > 1]'' Map.empty)
   \<and> rmatch pat_filter ''df[x > 1]'' Map.empty \<noteq> []
   \<and> list_all (\<lambda>m. fst m = [] \<or> fst m = [nl]) (rmatch pat_column ''df['b']'' Map.empty)
   \<and> rmatch pat_column ''df['b']'' Map.empty \<noteq> []
   \<and> re_match pat_column ''df['b'] x'' = None
   \<and> re_match pat_column ''df['b']  '' = Some [Some ''b'']
   \<and> python_to_sql ''  df[x > 1] x'' ''t'' = Inr unsupported
   \<and> python_to_sql ''  df[x > 1]  '' ''t''
     = Inr (''SELECT * FROM t WHERE '' @ replace_series_refs ''x > 1'' @ '';'')"
proof -
  have h: "is_ws ''  ''" "is_ws []" "is_quote sq" "is_ident ''a''" "is_ident ''b''"
    "is_ident ''sum''" "nl \<notin> set ''x > 1''" "''x > 1'' \<noteq> []"
    "CHR '']'' \<notin> set ''x > 1''" "\<not> is_quote (hd ''x > 1'')" "CHR '']'' \<notin> set '' x''"
    "CHR '']'' \<notin> set ''  ''" "\<not> is_ws '' x''"
    by (simp_all add: is_ws_def is_quote_def is_ident_def is_space_def is_word_def
        lower_letters_def)
  have n: "\<not> chain_again (rstrip '']x  '')" "\<not> ends_filter (rstrip '']x  '')"
    "rmatch pat_filter ''df[x > 1]'' Map.empty \<noteq> []"
    "rmatch pat_column ''df['b']'' Map.empty \<noteq> []"
    by code_simp+
  have f: "func_map_get ''sum'' = ''SUM''" by (simp add: func_map_get_def FUNC_MAP_def)
  note A = trailing_text_ignored [where l = "''  ''" and ?w1.0 = "[]" and ?w2.0 = "[]"
      and ?w3.0 = "[]" and ?w4.0 = "[]" and ?w5.0 = "[]" and ?w6.0 = "[]" and ?w7.0 = "[]"
      and ?w8.0 = "[]" and ?w9.0 = "[]" and ?q1.0 = sq and ?q2.0 = sq and ?q3.0 = sq
      and ?q4.0 = sq and G = "''a''" and C = "''b''" and F = "''sum''" and b = "''False''"
      and cond = "''x > 1''" and table_name = "''t''"
      and gb = "''df.groupby('a')['b'].sum()''" and so = "''df.sort_values('b')''"
      and sa = "''df.sort_values('b',ascending=False)''" and ch = "''df[x > 1]['b'].sum()''"
      and ca = "''df['b'].sum()''"]
  note B = A [where t = "'']x  ''" and u = "'' x''" and s = "''df[x > 1]''" and c = Map.empty]
  note D = A [where t = "[]" and u = "''  ''" and s = "''df['b']''" and c = Map.empty]
  show ?thesis using h n f B D by simp
qed

text \<open>
  C8. Against the specification, the column aggregate with whitespace inside its square
  brackets is not recognized, while a name that opens with one quote character and closes
  with the other is, and so are a double-bracket selection, an f-string and a variable in
  the bracket after \<open>df\<close>: the filter template takes them as a condition. Whitespace in
  that bracket is not left out either, it goes into the SQL with the condition.
\<close>

theorem whitespace_and_quotes_counterexample:
  "python_to_sql ''df['salary'].mean()'' ''employees'' = Inr ''SELECT AVG(salary) FROM employees;''
   \<and> python_to_sql ''df[ 'salary' ].mean()'' ''employees'' = Inr unsupported
   \<and> python_to_sql ''df['salary\"].mean()'' ''employees''
     = Inr ''SELECT AVG(salary) FROM employees;''
   \<and> python_to_sql ''df[['a','b']]'' ''employees''
     = Inr ''SELECT * FROM employees WHERE ['a','b'];''
   \<and> python_to_sql ''df[f'a']'' ''employees'' = Inr ''SELECT * FROM employees WHERE f'a';''
   \<and> python_to_sql ''df[x]'' ''employees'' = Inr ''SELECT * FROM employees WHERE x;''
   \<and> python_to_sql ''df[ x ]'' ''employees'' = Inr ''SELECT * FROM employees WHERE  x ;''"
  by code_simp

text \<open>
  C8 as amended. Whitespace is tolerated at the places where the templates have \<open>\s*\<close>,
  and the input with whitespace there (\<open>gb\<close>, \<open>so\<close>, \<open>sa\<close>, \<open>ch\<close>, \<open>ca\<close>) is translated to the
  same SQL as the input without it (\<open>gb0\<close>, \<open>so0\<close>, \<open>sa0\<close>, \<open>ch0\<close>, \<open>ca0\<close>). The places are:
  in the group-by shape behind \<open>df.groupby(\<close>, before \<open>)\<close>, between \<open>)\<close> and \<open>[\<close>, behind
  \<open>[\<close>, before \<open>]\<close>, between \<open>]\<close> and the dot, between the dot and the function name,
  between the function name and \<open>(\<close>, and between \<open>(\<close> and \<open>)\<close>; in the sort shape behind
  \<open>df.sort_values(\<close>, before \<open>)\<close>, on both sides of the comma and on both sides of \<open>=\<close>; in
  the chained shape, from the \<open>]\<close> that closes the condition on, the places of the
  group-by shape from its \<open>)\<close> on; in the column-aggregate shape between \<open>]\<close> and the dot,
  between the dot and the function name, between the function name and \<open>(\<close>, and between
  \<open>(\<close> and \<open>)\<close>. The quote that opens a name and the quote that closes it are each \<open>'\<close>
  or \<open>"\<close>, independently.

  A name that does not begin with a quote is not recognized as a name. When the argument
  of \<open>groupby\<close> or of \<open>sort_values\<close> begins, behind whitespace, with a character \<open>x\<close> that is
  neither a quote nor whitespace, the input is not recognized. The templates 5 and 6
  match no text with such a character behind \<open>df[\<close>. A text \<open>x # v\<close> in the bracket behind
  \<open>df\<close> with no \<open>]\<close> and no line break in it is the condition of a filter when only
  whitespace follows the bracket, and the input is not recognized when other text with
  no \<open>]\<close> follows the bracket.
\<close>

theorem whitespace_tolerated:
  assumes "is_ws w1" "is_ws w2" "is_ws w3" "is_ws w4" "is_ws w5" "is_ws w6" "is_ws w7"
      "is_ws w8" "is_ws w9"
    and "is_quote q1" "is_quote q2" "is_quote q3" "is_quote q4"
    and "is_ident G" "is_ident C" "is_ident F"
    and "b = ''True'' \<or> b = ''False''"
    and "cond \<noteq> []" "nl \<notin> set cond"
    and "\<not> is_quote x" "\<not> is_space x"
    and "gb = ''df.groupby('' @ w1 @ [q1] @ G @ [q2] @ w2 @ '')'' @ w3 @ ''['' @ w4 @ [q3] @ C
          @ [q4] @ w5 @ '']'' @ w6 @ ''.'' @ w7 @ F @ w8 @ ''('' @ w9 @ '')''"
    and "gb0 = ''df.groupby('' @ [sq] @ G @ [sq] @ '')['' @ [sq] @ C @ [sq] @ ''].'' @ F @ ''()''"
    and "so = ''df.sort_values('' @ w1 @ [q1] @ C @ [q2] @ w2 @ '')''"
    and "so0 = ''df.sort_values('' @ [sq] @ C @ [sq] @ '')''"
    and "sa = ''df.sort_values('' @ w1 @ [q1] @ C @ [q2] @ w3 @ '','' @ w4 @ ''ascending'' @ w5
          @ ''='' @ w6 @ b @ w2 @ '')''"
    and "sa0 = ''df.sort_values('' @ [sq] @ C @ [sq] @ '',ascending='' @ b @ '')''"
    and "ch = ''df['' @ cond @ '']'' @ w1 @ ''['' @ w2 @ [q1] @ C @ [q2] @ w3 @ '']'' @ w4
          @ ''.'' @ w5 @ F @ w6 @ ''('' @ w7 @ '')''"
    and "ch0 = ''df['' @ cond @ '']['' @ [sq] @ C @ [sq] @ ''].'' @ F @ ''()''"
    and "ca = ''df['' @ [q1] @ C @ [q2] @ '']'' @ w1 @ ''.'' @ w2 @ F @ w3 @ ''('' @ w4 @ '')''"
    and "ca0 = ''df['' @ [sq] @ C @ [sq] @ ''].'' @ F @ ''()''"
  shows "python_to_sql gb table_name = python_to_sql gb0 table_name
   \<and> python_to_sql gb0 table_name
     = Inr (''SELECT '' @ G @ '', '' @ func_map_get F @ ''('' @ C @ '') FROM '' @ table_name
            @ '' GROUP BY '' @ G @ '';'')
   \<and> python_to_sql so table_name = python_to_sql so0 table_name
   \<and> python_to_sql so0 table_name
     = Inr (''SELECT * FROM '' @ table_name @ '' ORDER BY '' @ C @ '' ASC;'')
   \<and> python_to_sql sa table_name = python_to_sql sa0 table_name
   \<and> python_to_sql sa0 table_name
     = Inr (''SELECT * FROM '' @ table_name @ '' ORDER BY '' @ C
            @ (if b = ''False'' then '' DESC;'' else '' ASC;''))
   \<and> python_to_sql ch table_name = python_to_sql ch0 table_name
   \<and> python_to_sql ch0 table_name
     = Inr (''SELECT '' @ func_map_get F @ ''('' @ C @ '') FROM '' @ table_name
            @ '' WHERE '' @ replace_series_refs cond @ '';'')
   \<and> python_to_sql ca table_name = python_to_sql ca0 table_name
   \<and> python_to_sql ca0 table_name
     = Inr (''SELECT '' @ func_map_get F @ ''('' @ C @ '') FROM '' @ table_name @ '';'')
   \<and> python_to_sql (''df.groupby('' @ w1 @ x # r) table_name = Inr unsupported
   \<and> python_to_sql (''df.sort_values('' @ w1 @ x # r) table_name = Inr unsupported
   \<and> re_match pat_colagg (''df['' @ x # v @ '']'' @ u) = None
   \<and> re_match pat_column (''df['' @ x # v @ '']'' @ u) = None
   \<and> (CHR '']'' \<notin> set (x # v) \<and> nl \<notin> set v \<and> CHR '']'' \<notin> set u
        \<longrightarrow> python_to_sql (''df['' @ x # v @ '']'' @ u) table_name
            = (if is_ws u
               then Inr (''SELECT * FROM '' @ table_name @ '' WHERE ''
                         @ replace_series_refs (x # v) @ '';'')
               else Inr unsupported))"
proof -
  have e: "is_ws []" by (simp add: is_ws_def)
  have s: "is_quote sq" by (simp add: is_quote_def)
  have g: "python_to_sql gb table_name
     = Inr (''SELECT '' @ G @ '', '' @ func_map_get F @ ''('' @ C @ '') FROM '' @ table_name
            @ '' GROUP BY '' @ G @ '';'')"
    using groupby_shape [OF assms(1-9) assms(10-13) assms(14-16), of "[]" table_name]
    by (simp add: assms(22))
  have g0: "python_to_sql gb0 table_name
     = Inr (''SELECT '' @ G @ '', '' @ func_map_get F @ ''('' @ C @ '') FROM '' @ table_name
            @ '' GROUP BY '' @ G @ '';'')"
    using groupby_shape [OF e e e e e e e e e s s s s assms(14-16), of "[]" table_name]
    by (simp add: assms(23))
  have p: "python_to_sql so table_name
     = Inr (''SELECT * FROM '' @ table_name @ '' ORDER BY '' @ C @ '' ASC;'')"
    using sort_plain_shape [OF assms(1,2,10,11,15), of "[]" table_name]
    by (simp add: assms(24))
  have p0: "python_to_sql so0 table_name
     = Inr (''SELECT * FROM '' @ table_name @ '' ORDER BY '' @ C @ '' ASC;'')"
    using sort_plain_shape [OF e e s s assms(15), of "[]" table_name]
    by (simp add: assms(25))
  have a: "python_to_sql sa table_name
     = Inr (''SELECT * FROM '' @ table_name @ '' ORDER BY '' @ C
            @ (if b = ''False'' then '' DESC;'' else '' ASC;''))"
    using sort_asc_shape [OF assms(1-6,10,11,15,17), of "[]" table_name]
    by (simp add: assms(26))
  have a0: "python_to_sql sa0 table_name
     = Inr (''SELECT * FROM '' @ table_name @ '' ORDER BY '' @ C
            @ (if b = ''False'' then '' DESC;'' else '' ASC;''))"
    using sort_asc_shape [OF e e e e e e s s assms(15,17), of "[]" table_name]
    by (simp add: assms(27))
  have n: "nl \<in> set W \<or> \<not> chain_again (rstrip [])" for W
    by (simp add: rstrip_def chain_again_nil)
  have k: "python_to_sql ch table_name
     = Inr (''SELECT '' @ func_map_get F @ ''('' @ C @ '') FROM '' @ table_name
            @ '' WHERE '' @ replace_series_refs cond @ '';'')"
    using chain_exact [OF assms(1-7,10,11,15,16,18,19) e n, of table_name]
    by (simp add: assms(28))
  have k0: "python_to_sql ch0 table_name
     = Inr (''SELECT '' @ func_map_get F @ ''('' @ C @ '') FROM '' @ table_name
            @ '' WHERE '' @ replace_series_refs cond @ '';'')"
    using chain_exact [OF e e e e e e e s s assms(15,16,18,19) e n, of table_name]
    by (simp add: assms(29))
  have n': "nl \<in> set W \<or> \<not> chain_again (rstrip []) \<and> \<not> ends_filter (rstrip [])" for W
    by (simp add: rstrip_def chain_again_nil ends_filter_def)
  have o: "python_to_sql ca table_name
     = Inr (''SELECT '' @ func_map_get F @ ''('' @ C @ '') FROM '' @ table_name @ '';'')"
    using colagg_exact [OF assms(1-4,10,11,15,16) e n', of table_name]
    by (simp add: assms(30))
  have o0: "python_to_sql ca0 table_name
     = Inr (''SELECT '' @ func_map_get F @ ''('' @ C @ '') FROM '' @ table_name @ '';'')"
    using colagg_exact [OF e e e e s s assms(15,16) e n', of table_name]
    by (simp add: assms(31))
  have r1: "python_to_sql (''df.groupby('' @ w1 @ x # r) table_name = Inr unsupported"
    using groupby_arg_reject [OF e assms(1,20,21), of r table_name] by simp
  have r2: "python_to_sql (''df.sort_values('' @ w1 @ x # r) table_name = Inr unsupported"
    using sort_arg_reject [OF e assms(1,20,21), of r table_name] by simp
  have r5: "re_match pat_colagg (''df['' @ x # v @ '']'' @ u) = None"
    by (rule bracket_reject [OF assms(20)])
  have r6: "re_match pat_column (''df['' @ x # v @ '']'' @ u) = None"
    by (rule bracket_reject [OF assms(20)])
  have x: "x \<noteq> nl" using assms(21) by (auto simp: is_space_def)
  have r4: "python_to_sql (''df['' @ x # v @ '']'' @ u) table_name
      = (if is_ws u
         then Inr (''SELECT * FROM '' @ table_name @ '' WHERE ''
                   @ replace_series_refs (x # v) @ '';'')
         else Inr unsupported)"
    if "CHR '']'' \<notin> set (x # v) \<and> nl \<notin> set v \<and> CHR '']'' \<notin> set u"
    using that x assms(20) filter_exact [OF e, of "x # v" u table_name] by simp
  from g g0 p p0 a a0 k k0 o o0 r1 r2 r5 r6 r4 show ?thesis by simp
qed

theorem whitespace_tolerated_witness:
  "is_ws '' '' \<and> is_quote sq \<and> is_quote dq \<and> is_ident ''a'' \<and> is_ident ''b''
   \<and> is_ident ''sum'' \<and> nl \<notin> set ''x > 1''
   \<and> \<not> is_quote CHR ''c'' \<and> \<not> is_space CHR ''c''
   \<and> CHR '']'' \<notin> set ''col'' \<and> nl \<notin> set ''ol'' \<and> CHR '']'' \<notin> set ''.mean()''
   \<and> python_to_sql ''df.groupby( 'a\" ) [ \"b' ] . sum ( )'' ''t''
     = Inr ''SELECT a, SUM(b) FROM t GROUP BY a;''
   \<and> python_to_sql ''df.groupby('a')['b'].sum()'' ''t'' = Inr ''SELECT a, SUM(b) FROM t GROUP BY a;''
   \<and> python_to_sql ''df.sort_values( 'b\" )'' ''t'' = Inr ''SELECT * FROM t ORDER BY b ASC;''
   \<and> python_to_sql ''df.sort_values('b')'' ''t'' = Inr ''SELECT * FROM t ORDER BY b ASC;''
   \<and> python_to_sql ''df.sort_values( 'b\" , ascending = False )'' ''t''
     = Inr ''SELECT * FROM t ORDER BY b DESC;''
   \<and> python_to_sql ''df.sort_values('b',ascending=False)'' ''t''
     = Inr ''SELECT * FROM t ORDER BY b DESC;''
   \<and> python_to_sql ''df[x > 1] [ 'b\" ] . sum ( )'' ''t''
     = python_to_sql ''df[x > 1]['b'].sum()'' ''t''
   \<and> python_to_sql ''df[x > 1]['b'].sum()'' ''t''
     = Inr (''SELECT SUM(b) FROM t WHERE '' @ replace_series_refs ''x > 1'' @ '';'')
   \<and> python_to_sql ''df['b\"] . sum ( )'' ''t'' = Inr ''SELECT SUM(b) FROM t;''
   \<and> python_to_sql ''df['b'].sum()'' ''t'' = Inr ''SELECT SUM(b) FROM t;''
   \<and> python_to_sql ''df.groupby( col)['b'].sum()'' ''t'' = Inr unsupported
   \<and> python_to_sql ''df.sort_values( col)['b'].sum()'' ''t'' = Inr unsupported
   \<and> re_match pat_colagg ''df[col].mean()'' = None
   \<and> re_match pat_column ''df[col]'' = None
   \<and> python_to_sql ''df[col].mean()'' ''t'' = Inr unsupported
   \<and> python_to_sql ''df[col]'' ''t''
     = Inr (''SELECT * FROM t WHERE '' @ replace_series_refs ''col'' @ '';'')"
proof -
  have h: "is_ws '' ''" "is_quote sq" "is_quote dq" "is_ident ''a''" "is_ident ''b''"
    "is_ident ''sum''" "nl \<notin> set ''x > 1''" "''x > 1'' \<noteq> []"
    "\<not> is_quote CHR ''c''" "\<not> is_space CHR ''c''"
    "CHR '']'' \<notin> set ''col''" "nl \<notin> set ''ol''" "CHR '']'' \<notin> set ''.mean()''"
    "\<not> is_ws ''.mean()''" "is_ws []"
    by (simp_all add: is_ws_def is_quote_def is_ident_def is_space_def is_word_def
        lower_letters_def)
  have f: "func_map_get ''sum'' = ''SUM''" by (simp add: func_map_get_def FUNC_MAP_def)
  note A = whitespace_tolerated [where ?w1.0 = "'' ''" and ?w2.0 = "'' ''" and ?w3.0 = "'' ''"
      and ?w4.0 = "'' ''" and ?w5.0 = "'' ''" and ?w6.0 = "'' ''" and ?w7.0 = "'' ''"
      and ?w8.0 = "'' ''" and ?w9.0 = "'' ''" and ?q1.0 = sq and ?q2.0 = dq and ?q3.0 = dq
      and ?q4.0 = sq and G = "''a''" and C = "''b''" and F = "''sum''" and b = "''False''"
      and cond = "''x > 1''" and x = "CHR ''c''" and table_name = "''t''"
      and r = "''ol)['b'].sum()''" and v = "''ol''"
      and gb = "''df.groupby( 'a\" ) [ \"b' ] . sum ( )''"
      and ?gb0.0 = "''df.groupby('a')['b'].sum()''"
      and so = "''df.sort_values( 'b\" )''" and ?so0.0 = "''df.sort_values('b')''"
      and sa = "''df.sort_values( 'b\" , ascending = False )''"
      and ?sa0.0 = "''df.sort_values('b',ascending=False)''"
      and ch = "''df[x > 1] [ 'b\" ] . sum ( )''" and ?ch0.0 = "''df[x > 1]['b'].sum()''"
      and ca = "''df['b\"] . sum ( )''" and ?ca0.0 = "''df['b'].sum()''"]
  note B = A [where u = "''.mean()''"]
  note D = A [where u = "[]"]
  show ?thesis using h f B D by simp
qed

section \<open>The quote-stripping helper\<close>

text \<open>
  C9. \<open>clean_quotes\<close> is the source's \<open>_clean_quotes\<close>. The specification says that a
  text that is not wrapped in quotes is returned unchanged; the code strips whitespace
  first, so \<open>" a"\<close> comes back as \<open>"a"\<close>.
\<close>

theorem clean_quotes_counterexample:
  "\<not> startswith '' a'' [sq] \<and> \<not> startswith '' a'' [dq] \<and> clean_quotes '' a'' = ''a''
   \<and> clean_quotes '' a'' \<noteq> '' a''"
  by code_simp

text \<open>
  C9 as amended. The helper first strips leading and trailing whitespace. When the
  stripped text is a quote character, a body and the same quote character again, the
  body is returned. When the stripped text is empty, or does not begin with a quote
  character, or begins and ends with different characters, the stripped text is
  returned.
\<close>

theorem clean_quotes_strips_then_unquotes:
  "(is_quote q \<and> strip s = q # body @ [q] \<longrightarrow> clean_quotes s = body)
   \<and> (strip s = [] \<or> \<not> is_quote (hd (strip s)) \<or> hd (strip s) \<noteq> last (strip s)
        \<longrightarrow> clean_quotes s = strip s)"
proof (intro conjI impI)
  assume "is_quote q \<and> strip s = q # body @ [q]"
  then show "clean_quotes s = body"
    by (auto simp: clean_quotes_def Let_def startswith_char endswith_char is_quote_def)
next
  assume "strip s = [] \<or> \<not> is_quote (hd (strip s)) \<or> hd (strip s) \<noteq> last (strip s)"
  then show "clean_quotes s = strip s"
    by (auto simp: clean_quotes_def Let_def startswith_char endswith_char is_quote_def)
qed

theorem clean_quotes_strips_then_unquotes_witness:
  "is_quote dq \<and> strip '' \"ab\" '' = dq # ''ab'' @ [dq] \<and> clean_quotes '' \"ab\" '' = ''ab''
   \<and> \<not> is_quote (hd (strip '' ab ''))  \<and> clean_quotes '' ab '' = strip '' ab ''"
proof -
  have 1: "is_quote dq" by (simp add: is_quote_def)
  have 2: "strip '' \"ab\" '' = dq # ''ab'' @ [dq]" by code_simp
  have 3: "\<not> is_quote (hd (strip '' ab ''))" by code_simp
  from clean_quotes_strips_then_unquotes [of dq "'' \"ab\" ''" "''ab''"] 1 2
  have 4: "clean_quotes '' \"ab\" '' = ''ab''" by blast
  from clean_quotes_strips_then_unquotes [of dq "'' ab ''" "''ab''"] 3
  have 5: "clean_quotes '' ab '' = strip '' ab ''" by blast
  from 1 2 3 4 5 show ?thesis by blast
qed

section \<open>Unrecognized input\<close>

text \<open>
  C2. \<open>python_to_sql\<close> returns a string for every input and every table name: none of
  the places where the Python could raise (unpacking \<open>m.groups()\<close>, \<open>m.group(1)\<close>,
  \<open>func.upper()\<close> and \<open>re.sub\<close> on a group that is \<open>None\<close>) is reached with a value that
  raises. When none of the six templates matches the stripped input, the result is the
  fixed error string, as for \<open>not_a_pattern(1,2,3)\<close>.
\<close>

theorem never_raises_and_sentinel:
  "(\<exists>sql. python_to_sql python_code table_name = Inr sql)
   \<and> (re_match pat_groupby (strip python_code) = None
      \<and> re_match pat_sort (strip python_code) = None
      \<and> re_match pat_chain (strip python_code) = None
      \<and> re_match pat_filter (strip python_code) = None
      \<and> re_match pat_colagg (strip python_code) = None
      \<and> re_match pat_column (strip python_code) = None
      \<longrightarrow> python_to_sql python_code table_name
          = Inr ''ERROR: Unsupported or unrecognized Python pattern. Please try a simpler expression.'')
   \<and> python_to_sql ''not_a_pattern(1,2,3)'' ''employees''
     = Inr ''ERROR: Unsupported or unrecognized Python pattern. Please try a simpler expression.''"
proof (intro conjI impI)
  show "\<exists>sql. python_to_sql python_code table_name = Inr sql" by (rule python_to_sql_total)
next
  assume "re_match pat_groupby (strip python_code) = None
      \<and> re_match pat_sort (strip python_code) = None
      \<and> re_match pat_chain (strip python_code) = None
      \<and> re_match pat_filter (strip python_code) = None
      \<and> re_match pat_colagg (strip python_code) = None
      \<and> re_match pat_column (strip python_code) = None"
  then show "python_to_sql python_code table_name
      = Inr ''ERROR: Unsupported or unrecognized Python pattern. Please try a simpler expression.''"
    by (simp add: python_to_sql_def Let_def unsupported_def)
next
  show "python_to_sql ''not_a_pattern(1,2,3)'' ''employees''
     = Inr ''ERROR: Unsupported or unrecognized Python pattern. Please try a simpler expression.''"
    by code_simp
qed

theorem never_raises_and_sentinel_witness:
  "re_match pat_groupby (strip '' df(x) '') = None \<and> re_match pat_sort (strip '' df(x) '') = None
   \<and> re_match pat_chain (strip '' df(x) '') = None \<and> re_match pat_filter (strip '' df(x) '') = None
   \<and> re_match pat_colagg (strip '' df(x) '') = None
   \<and> re_match pat_column (strip '' df(x) '') = None
   \<and> python_to_sql '' df(x) '' ''sales''
     = Inr ''ERROR: Unsupported or unrecognized Python pattern. Please try a simpler expression.''"
proof -
  have n: "re_match pat_groupby (strip '' df(x) '') = None"
    "re_match pat_sort (strip '' df(x) '') = None"
    "re_match pat_chain (strip '' df(x) '') = None"
    "re_match pat_filter (strip '' df(x) '') = None"
    "re_match pat_colagg (strip '' df(x) '') = None"
    "re_match pat_column (strip '' df(x) '') = None"
    by code_simp+
  with never_raises_and_sentinel [of "'' df(x) ''" "''sales''"] show ?thesis by blast
qed

end
